theory Spec2Isabelle
  imports Main "HOL-Library.Word"
begin

unbundle bit_operations_syntax

section \<open>acdcontrol: brightness control of Apple displays over hiddev\<close>

text \<open>
  A shallow embedding of \<^verbatim>\<open>acdcontrol.cpp\<close>. A C \<^verbatim>\<open>int\<close> or \<^verbatim>\<open>unsigned\<close> is a
  \<open>32 word\<close> (signed readings through \<open>sint\<close>, \<open>word_sless\<close>, \<open>signed_drop_bit\<close>), the
  \<^verbatim>\<open>__s16\<close> fields of \<^verbatim>\<open>struct hiddev_devinfo\<close> are \<open>16 word\<close>. The kernel driver
  and the file system are an environment that answers every call from the history
  of the calls made so far; every call is recorded in a trace.
\<close>

subsection \<open>Constants\<close>

datatype mode = GET | SET | DETECT | SETREL

definition APPLE :: "32 word" where "APPLE = 0x05ac"
definition SAMSUNG :: "32 word" where "SAMSUNG = 0x0419"

definition BRIGHTNESS_CONTROL :: "32 word" where "BRIGHTNESS_CONTROL = 16"
definition USAGE_CODE :: "32 word" where "USAGE_CODE = 0x820010"

definition STUDIO_DISPLAY_15 :: "32 word" where "STUDIO_DISPLAY_15 = 0x9215"
definition STUDIO_DISPLAY_17 :: "32 word" where "STUDIO_DISPLAY_17 = 0x9217"
definition CINEMA_DISPLAY_23_OLD :: "32 word" where "CINEMA_DISPLAY_23_OLD = 0x9218"
definition CINEMA_DISPLAY_23_NEW :: "32 word" where "CINEMA_DISPLAY_23_NEW = 0x9218"
definition CINEMA_DISPLAY_20_OLD :: "32 word" where "CINEMA_DISPLAY_20_OLD = 0x9219"
definition CINEMA_DISPLAY_20_NEW :: "32 word" where "CINEMA_DISPLAY_20_NEW = 0x9219"
definition CINEMA_DISPLAY_24 :: "32 word" where "CINEMA_DISPLAY_24 = 0x921e"
definition CINEMA_DISPLAY_30 :: "32 word" where "CINEMA_DISPLAY_30 = 0x9232"

definition S1 :: "32 word" where "S1 = 0x8002"

text \<open>Values of the system headers \<^verbatim>\<open>linux/hiddev.h\<close> and \<^verbatim>\<open>fcntl.h\<close>.\<close>

definition HID_REPORT_TYPE_FEATURE :: "32 word" where "HID_REPORT_TYPE_FEATURE = 3"
definition O_RDONLY :: "32 word" where "O_RDONLY = 0"
definition O_RDWR :: "32 word" where "O_RDWR = 2"

subsection \<open>The device database\<close>

record DeviceId =
  product :: "32 word"
  vendor :: "32 word"
  description :: string

text \<open>\<^verbatim>\<open>DeviceId::operator <\<close>: by vendor, then by product, both unsigned.\<close>

definition DeviceId_less :: "DeviceId \<Rightarrow> DeviceId \<Rightarrow> bool" where
  "DeviceId_less a b \<longleftrightarrow>
     DeviceId.vendor a < DeviceId.vendor b \<or>
     (DeviceId.vendor a = DeviceId.vendor b \<and> DeviceId.product a < DeviceId.product b)"

text \<open>
  A \<^verbatim>\<open>std::set< DeviceId >\<close> is the list of its elements in iteration order.
  \<^verbatim>\<open>insert\<close> keeps the element already there when an equivalent one exists;
  \<^verbatim>\<open>find\<close> returns the equivalent element, or nothing for \<^verbatim>\<open>end()\<close>.
\<close>

fun set_insert :: "DeviceId \<Rightarrow> DeviceId list \<Rightarrow> DeviceId list" where
  "set_insert x [] = [x]"
| "set_insert x (y # ys) =
     (if DeviceId_less x y then x # y # ys
      else if DeviceId_less y x then y # set_insert x ys
      else y # ys)"

fun set_find :: "DeviceId \<Rightarrow> DeviceId list \<Rightarrow> DeviceId option" where
  "set_find x [] = None"
| "set_find x (y # ys) =
     (if \<not> DeviceId_less x y \<and> \<not> DeviceId_less y x then Some y else set_find x ys)"

text \<open>A \<^verbatim>\<open>std::map< Vendor, string >\<close>, in the same way, with \<^verbatim>\<open>insert\<close> keeping an existing key.\<close>

fun map_insert :: "32 word \<times> string \<Rightarrow> (32 word \<times> string) list \<Rightarrow> (32 word \<times> string) list" where
  "map_insert x [] = [x]"
| "map_insert x (y # ys) =
     (if fst x < fst y then x # y # ys
      else if fst y < fst x then y # map_insert x ys
      else y # ys)"

record database =
  supportedVendors :: "(32 word \<times> string) list"
  supportedDevices :: "DeviceId list"

definition mkDeviceId :: "32 word \<Rightarrow> 32 word \<Rightarrow> string \<Rightarrow> DeviceId" where
  "mkDeviceId v p d = \<lparr>DeviceId.product = p, vendor = v, description = d\<rparr>"

definition insert_device :: "DeviceId \<Rightarrow> database \<Rightarrow> database" where
  "insert_device d db = db\<lparr>supportedDevices := set_insert d (supportedDevices db)\<rparr>"

definition insert_vendor :: "32 word \<times> string \<Rightarrow> database \<Rightarrow> database" where
  "insert_vendor v db = db\<lparr>supportedVendors := map_insert v (supportedVendors db)\<rparr>"

text \<open>\<^verbatim>\<open>init_device_database\<close>: the two globals start empty; the inserts are in source order.\<close>

definition init_device_database :: database where
  \<open>init_device_database =
     (insert_device (mkDeviceId SAMSUNG S1 ''Samsung SyncMaster 757NF'') \<circ>
      insert_device (mkDeviceId APPLE CINEMA_DISPLAY_30 ''Apple Cinema HD Display 30"'') \<circ>
      insert_device (mkDeviceId APPLE CINEMA_DISPLAY_24 ''Apple Cinema Display 24"'') \<circ>
      insert_device (mkDeviceId APPLE CINEMA_DISPLAY_23_OLD ''Apple Cinema Display 23" (old)'') \<circ>
      insert_device (mkDeviceId APPLE CINEMA_DISPLAY_20_OLD ''Apple Cinema Display 20" (old)'') \<circ>
      insert_device (mkDeviceId APPLE STUDIO_DISPLAY_17 ''Apple Studio Display 17"'') \<circ>
      insert_device (mkDeviceId APPLE STUDIO_DISPLAY_15 ''Apple Studio Display 15"'') \<circ>
      insert_vendor (APPLE, ''Apple'') \<circ>
      insert_vendor (SAMSUNG, ''Samsung Electronics''))
     \<lparr>supportedVendors = [], supportedDevices = []\<rparr>\<close>

text \<open>
  \<^verbatim>\<open>struct hiddev_devinfo\<close> of \<^verbatim>\<open>linux/hiddev.h\<close>, the fields the program reads:
  \<^verbatim>\<open>__s16 vendor; __s16 product; __u32 num_applications;\<close>
\<close>

record hiddev_devinfo =
  vendor :: "16 word"
  product :: "16 word"
  num_applications :: "32 word"

text \<open>
  \<^verbatim>\<open>is_supported\<close>: the 16-bit fields are promoted to \<^verbatim>\<open>int\<close> (sign extension,
  \<open>scast\<close>) and masked.
\<close>

definition is_supported :: "database \<Rightarrow> hiddev_devinfo \<Rightarrow> bool" where
  "is_supported db device_info =
     (let product = scast (hiddev_devinfo.product device_info) AND 0xFFFF;
          vendor = scast (hiddev_devinfo.vendor device_info) AND 0xFFFF
      in set_find (mkDeviceId vendor product '''') (supportedDevices db) \<noteq> None)"

subsection \<open>Command-line arguments\<close>

text \<open>A C string is the list of its characters before the terminating NUL.\<close>

definition first_char :: "string \<Rightarrow> char" where
  "first_char str = (case str of [] \<Rightarrow> CHR 0x00 | c # _ \<Rightarrow> c)"

definition number :: "string \<Rightarrow> bool" where
  "number str \<longleftrightarrow>
     ((of_char (CHR ''0'') :: nat) \<le> of_char (first_char str) \<and>
      (of_char (first_char str) :: nat) \<le> of_char (CHR ''9'')) \<or>
     first_char str = CHR ''+'' \<or> first_char str = CHR ''-''"

text \<open>
  \<^verbatim>\<open>atoi\<close> of the C library is \<^verbatim>\<open>(int) strtol (str, NULL, 10)\<close>: white space, an
  optional sign, then decimal digits up to the first other character. \<^verbatim>\<open>strtol\<close>
  stops at the ends of \<^verbatim>\<open>long\<close>, which has 64 bits on the Linux systems the program
  is built for, and the conversion to \<^verbatim>\<open>int\<close> keeps the low 32 bits. ISO C leaves
  \<^verbatim>\<open>atoi\<close> undefined for a value outside the range of \<^verbatim>\<open>int\<close>.
\<close>

definition isspace :: "char \<Rightarrow> bool" where
  "isspace c \<longleftrightarrow> c \<in> {CHR '' '', CHR 0x09, CHR 0x0A, CHR 0x0B, CHR 0x0C, CHR 0x0D}"

definition isdigit :: "char \<Rightarrow> bool" where
  "isdigit c \<longleftrightarrow> (48::nat) \<le> of_char c \<and> (of_char c :: nat) \<le> 57"

fun digits_value :: "int \<Rightarrow> string \<Rightarrow> int" where
  "digits_value acc [] = acc"
| "digits_value acc (c # cs) =
     (if isdigit c then digits_value (acc * 10 + (of_char c - 48)) cs else acc)"

definition strtol :: "string \<Rightarrow> int" where
  "strtol str =
     (let s = dropWhile isspace str;
          v = (if first_char s = CHR ''-'' then - digits_value 0 (tl s)
               else if first_char s = CHR ''+'' then digits_value 0 (tl s)
               else digits_value 0 s)
      in max (- (2 ^ 63)) (min (2 ^ 63 - 1) v))"

definition atoi :: "string \<Rightarrow> 32 word" where
  "atoi str = word_of_int (strtol str)"

text \<open>
  The loop over \<^verbatim>\<open>argv[optind .. argc-1]\<close>, on the variables
  \<open>(mode, amount, brightness, files)\<close> of \<^verbatim>\<open>main\<close>.
\<close>

fun parse_params ::
  "string list \<Rightarrow> mode \<times> 32 word \<times> 32 word \<times> string list \<Rightarrow>
   mode \<times> 32 word \<times> 32 word \<times> string list" where
  "parse_params [] v = v"
| "parse_params (a # as) (mode, amount, brightness, files) =
     (if mode \<noteq> DETECT \<and> number a then
        (if first_char a = CHR ''+'' \<or> first_char a = CHR ''-''
         then parse_params as (SETREL, atoi a, brightness, files)
         else parse_params as (SET, amount, atoi a, files))
      else parse_params as (mode, amount, brightness, files @ [a]))"

subsection \<open>The hiddev driver as an environment\<close>

text \<open>
  \<^verbatim>\<open>struct hiddev_usage_ref\<close> (\<^verbatim>\<open>value\<close> is \<^verbatim>\<open>__s32\<close>) and
  \<^verbatim>\<open>struct hiddev_report_info\<close> of \<^verbatim>\<open>linux/hiddev.h\<close>.
\<close>

record hiddev_usage_ref =
  report_type :: "32 word"
  report_id :: "32 word"
  field_index :: "32 word"
  usage_index :: "32 word"
  usage_code :: "32 word"
  usage_value :: "32 word"

record hiddev_report_info =
  report_type :: "32 word"
  report_id :: "32 word"
  num_fields :: "32 word"

text \<open>
  One event per system call, with its arguments and what came back: the descriptor
  of \<^verbatim>\<open>open\<close>, the return value of an \<^verbatim>\<open>ioctl\<close>, the contents of the structure an
  \<^verbatim>\<open>ioctl\<close> writes (\<^verbatim>\<open>version\<close>, \<^verbatim>\<open>device_info\<close>, \<^verbatim>\<open>usage_ref.value\<close>). The return
  values of \<^verbatim>\<open>HIDIOCGVERSION\<close>, \<^verbatim>\<open>HIDIOCGDEVINFO\<close> and \<^verbatim>\<open>close\<close> are not recorded:
  the program does not read them.
\<close>

datatype event =
    Open string "32 word" "32 word"
  | GVERSION "32 word" "32 word"
  | GDEVINFO "32 word" hiddev_devinfo
  | APPLICATION "32 word" nat "32 word"
  | INITREPORT "32 word" "32 word"
  | SUSAGE "32 word" hiddev_usage_ref "32 word"
  | SREPORT "32 word" hiddev_report_info "32 word"
  | GUSAGE "32 word" hiddev_usage_ref "32 word" "32 word"
  | GREPORT "32 word" hiddev_report_info "32 word"
  | Close "32 word"

text \<open>
  The environment answers a call from the events so far, so that a device with
  state, one that fails now and then, or one that rounds the brightness it is given
  are all environments. \<open>hidiocgusage\<close> gives the return value and the
  \<^verbatim>\<open>value\<close> field after the call.
\<close>

record env =
  sys_open :: "event list \<Rightarrow> string \<Rightarrow> 32 word \<Rightarrow> 32 word"
  hidiocgversion :: "event list \<Rightarrow> 32 word \<Rightarrow> 32 word"
  hidiocgdevinfo :: "event list \<Rightarrow> 32 word \<Rightarrow> hiddev_devinfo"
  hidiocapplication :: "event list \<Rightarrow> 32 word \<Rightarrow> nat \<Rightarrow> 32 word"
  hidiocinitreport :: "event list \<Rightarrow> 32 word \<Rightarrow> 32 word"
  hidiocsusage :: "event list \<Rightarrow> 32 word \<Rightarrow> hiddev_usage_ref \<Rightarrow> 32 word"
  hidiocsreport :: "event list \<Rightarrow> 32 word \<Rightarrow> hiddev_report_info \<Rightarrow> 32 word"
  hidiocgusage :: "event list \<Rightarrow> 32 word \<Rightarrow> hiddev_usage_ref \<Rightarrow> 32 word \<times> 32 word"
  hidiocgreport :: "event list \<Rightarrow> 32 word \<Rightarrow> hiddev_report_info \<Rightarrow> 32 word"

text \<open>What the program prints, on either stream, as structured lines.\<close>

datatype line =
    About
  | Help
  | UnknownOption char
  | Supported "DeviceId list"
  | Notice
  | Perror string
  | DriverVersion "32 word"
  | DetectLine string bool hiddev_devinfo
  | DeviceUnsupported hiddev_devinfo
  | NotUsbMonitor string
  | FatalInit
  | BrightnessPrefix string
  | BrightnessValue "32 word"

text \<open>
  The variables of \<^verbatim>\<open>main\<close> that are fixed before the first device is opened, and
  those that change from device to device, with the trace and the output.
\<close>

record conf =
  brief :: bool
  silent :: bool
  force :: bool
  mode :: mode
  amount :: "32 word"
  open_mode :: "32 word"

record state =
  brightness :: "32 word"
  first_device :: bool
  trace :: "event list"
  out :: "line list"

datatype flow = Next | Exit int

definition log :: "event \<Rightarrow> state \<Rightarrow> state" where
  "log ev st = st\<lparr>trace := trace st @ [ev]\<rparr>"

definition print :: "line \<Rightarrow> state \<Rightarrow> state" where
  "print x st = st\<lparr>out := out st @ [x]\<rparr>"

subsection \<open>The monitor check\<close>

text \<open>
  \<^verbatim>\<open>is_usb_monitor\<close>: \<^verbatim>\<open>appl_num < device_info.num_applications\<close> compares as
  unsigned, so the counter is the natural number it stands for. The shift of the
  \<^verbatim>\<open>int\<close> is arithmetic.
\<close>

definition monitor_page :: "32 word \<Rightarrow> bool" where
  "monitor_page application \<longleftrightarrow> signed_drop_bit 16 application AND 0xFF = 0x80"

function is_usb_monitor_loop ::
  "env \<Rightarrow> 32 word \<Rightarrow> nat \<Rightarrow> nat \<Rightarrow> event list \<Rightarrow> bool \<times> event list" where
  "is_usb_monitor_loop e fd n appl_num tr =
     (if appl_num < n then
        (let application = hidiocapplication e tr fd appl_num;
             tr' = tr @ [APPLICATION fd appl_num application]
         in if monitor_page application then (True, tr')
            else is_usb_monitor_loop e fd n (Suc appl_num) tr')
      else (False, tr))"
  by pat_completeness auto
termination
  by (relation "measure (\<lambda>(e, fd, n, appl_num, tr). n - appl_num)") auto

declare is_usb_monitor_loop.simps [simp del]

definition is_usb_monitor :: "env \<Rightarrow> hiddev_devinfo \<Rightarrow> 32 word \<Rightarrow> state \<Rightarrow> bool \<times> state" where
  "is_usb_monitor e device_info fd st =
     (case is_usb_monitor_loop e fd (unat (num_applications device_info)) 0 (trace st) of
        (r, tr) \<Rightarrow> (r, st\<lparr>trace := tr\<rparr>))"

subsection \<open>One device\<close>

text \<open>\<^verbatim>\<open>std::max\<close> and \<^verbatim>\<open>std::min\<close> on \<^verbatim>\<open>int\<close>.\<close>

definition int_max :: "32 word \<Rightarrow> 32 word \<Rightarrow> 32 word" where
  "int_max a b = (if sint a < sint b then b else a)"

definition int_min :: "32 word \<Rightarrow> 32 word \<Rightarrow> 32 word" where
  "int_min a b = (if sint b < sint a then b else a)"

text \<open>
  The pair \<^verbatim>\<open>HIDIOCSUSAGE\<close>, \<^verbatim>\<open>HIDIOCSREPORT\<close> with its two exits, which \<^verbatim>\<open>main\<close>
  has twice (absolute and relative), and the pair \<^verbatim>\<open>HIDIOCGUSAGE\<close>,
  \<^verbatim>\<open>HIDIOCGREPORT\<close>, which it has twice as well (query and read back).
\<close>

definition set_usage_report ::
  "env \<Rightarrow> 32 word \<Rightarrow> hiddev_usage_ref \<Rightarrow> hiddev_report_info \<Rightarrow> state \<Rightarrow> flow \<times> state" where
  "set_usage_report e fd usage_ref rep_info st =
     (let r = hidiocsusage e (trace st) fd usage_ref;
          st = log (SUSAGE fd usage_ref r) st
      in if sint r < 0 then (Exit 2, print (Perror ''Usage failed!'') st)
         else
           let r = hidiocsreport e (trace st) fd rep_info;
               st = log (SREPORT fd rep_info r) st
           in if sint r < 0 then (Exit 3, print (Perror ''Report failed!'') st)
              else (Next, st))"

definition get_usage_report ::
  "env \<Rightarrow> 32 word \<Rightarrow> hiddev_usage_ref \<Rightarrow> hiddev_report_info \<Rightarrow> state \<Rightarrow>
   flow \<times> hiddev_usage_ref \<times> state" where
  "get_usage_report e fd usage_ref rep_info st =
     (let (r, v) = hidiocgusage e (trace st) fd usage_ref;
          st = log (GUSAGE fd usage_ref r v) st;
          usage_ref = usage_ref\<lparr>usage_value := v\<rparr>
      in if sint r < 0 then (Exit 2, usage_ref, print (Perror ''Usage failed!'') st)
         else
           let r = hidiocgreport e (trace st) fd rep_info;
               st = log (GREPORT fd rep_info r) st
           in if sint r < 0 then (Exit 3, usage_ref, print (Perror ''Report failed!'') st)
              else (Next, usage_ref, st))"

text \<open>The end of the loop body: the brightness line, \<^verbatim>\<open>close\<close>, \<^verbatim>\<open>first_device=false\<close>.\<close>

definition print_brightness :: "conf \<Rightarrow> string \<Rightarrow> hiddev_usage_ref \<Rightarrow> state \<Rightarrow> state" where
  "print_brightness c path usage_ref st =
     print (BrightnessValue (usage_value usage_ref))
       (if \<not> brief c then print (BrightnessPrefix path) st else st)"

definition close_device :: "32 word \<Rightarrow> state \<Rightarrow> flow \<times> state" where
  "close_device fd st = (Next, (log (Close fd) st)\<lparr>first_device := False\<rparr>)"

text \<open>
  From \<^verbatim>\<open>HIDIOCINITREPORT\<close> to the end of the loop body. The sum
  \<^verbatim>\<open>usage_ref.value + amount\<close> is a sum of two \<^verbatim>\<open>int\<close>; where it leaves the range of
  \<^verbatim>\<open>int\<close>, which ISO C leaves undefined, the model takes the two's-complement result
  of the Linux targets of the program (the sum of the 32-bit words).
\<close>

definition transaction :: "env \<Rightarrow> conf \<Rightarrow> string \<Rightarrow> 32 word \<Rightarrow> state \<Rightarrow> flow \<times> state" where
  "transaction e c path fd st =
     (let r = hidiocinitreport e (trace st) fd;
          st = log (INITREPORT fd r) st
      in if sint r < 0 then (Exit 1, print FatalInit st)
         else
           let usage_ref = \<lparr>hiddev_usage_ref.report_type = HID_REPORT_TYPE_FEATURE,
                 report_id = BRIGHTNESS_CONTROL, field_index = 0, usage_index = 0,
                 usage_code = USAGE_CODE, usage_value = brightness st\<rparr>;
               rep_info = \<lparr>hiddev_report_info.report_type = HID_REPORT_TYPE_FEATURE,
                 report_id = BRIGHTNESS_CONTROL, num_fields = 1\<rparr>
           in if mode c = SET then
                (case set_usage_report e fd usage_ref rep_info st of
                   (Exit n, st) \<Rightarrow> (Exit n, st)
                 | (Next, st) \<Rightarrow> close_device fd st)
              else
                (case get_usage_report e fd usage_ref rep_info st of
                   (Exit n, usage_ref, st) \<Rightarrow> (Exit n, st)
                 | (Next, usage_ref, st) \<Rightarrow>
                     if mode c = SETREL then
                       (let brightness = usage_value usage_ref + amount c;
                            brightness = int_max 0 brightness;
                            brightness = int_min 255 brightness;
                            usage_ref = usage_ref\<lparr>usage_value := brightness\<rparr>;
                            st = st\<lparr>brightness := brightness\<rparr>
                        in case set_usage_report e fd usage_ref rep_info st of
                             (Exit n, st) \<Rightarrow> (Exit n, st)
                           | (Next, st) \<Rightarrow>
                               (case get_usage_report e fd usage_ref rep_info st of
                                  (Exit n, usage_ref, st) \<Rightarrow> (Exit n, st)
                                | (Next, usage_ref, st) \<Rightarrow>
                                    close_device fd (print_brightness c path usage_ref st)))
                     else close_device fd (print_brightness c path usage_ref st)))"

text \<open>
  The loop body. It starts with \<^verbatim>\<open>open\<close>, then reads the driver version (printed
  while \<^verbatim>\<open>first_device\<close> holds) and the device information.
\<close>

definition open_device :: "env \<Rightarrow> conf \<Rightarrow> string \<Rightarrow> state \<Rightarrow> 32 word \<times> state" where
  "open_device e c path st =
     (let fd = sys_open e (trace st) path (open_mode c)
      in (fd, log (Open path (open_mode c) fd) st))"

definition read_info :: "env \<Rightarrow> conf \<Rightarrow> 32 word \<Rightarrow> state \<Rightarrow> hiddev_devinfo \<times> state" where
  "read_info e c fd st =
     (let version = hidiocgversion e (trace st) fd;
          st = log (GVERSION fd version) st;
          st = (if \<not> silent c \<and> first_device st then print (DriverVersion version) st
                else st);
          device_info = hidiocgdevinfo e (trace st) fd
      in (device_info, log (GDEVINFO fd device_info) st))"

definition loop_body :: "database \<Rightarrow> env \<Rightarrow> conf \<Rightarrow> string \<Rightarrow> state \<Rightarrow> flow \<times> state" where
  "loop_body db e c path st =
     (case open_device e c path st of
        (fd, st) \<Rightarrow>
          if sint fd < 0 then (Next, print (Perror path) st)
          else
            (case read_info e c fd st of
               (device_info, st) \<Rightarrow>
                 if mode c = DETECT then
                   (case is_usb_monitor e device_info fd st of
                      (m, st) \<Rightarrow>
                        (Next, if m then print (DetectLine path (is_supported db device_info)
                                                  device_info) st
                               else st))
                 else
                   let st = (if \<not> is_supported db device_info
                             then print (DeviceUnsupported device_info) st else st)
                   in if \<not> is_supported db device_info \<and> \<not> force c then (Exit 2, st)
                      else
                        (case is_usb_monitor e device_info fd st of
                           (m, st) \<Rightarrow>
                             if \<not> m then (Next, print (NotUsbMonitor path) st)
                             else transaction e c path fd st)))"

text \<open>The loop over \<^verbatim>\<open>files\<close>; \<^verbatim>\<open>exit\<close> leaves it.\<close>

fun run_files :: "database \<Rightarrow> env \<Rightarrow> conf \<Rightarrow> string list \<Rightarrow> state \<Rightarrow> flow \<times> state" where
  "run_files db e c [] st = (Next, st)"
| "run_files db e c (path # paths) st =
     (case loop_body db e c path st of
        (Exit n, st') \<Rightarrow> (Exit n, st')
      | (Next, st') \<Rightarrow> run_files db e c paths st')"

subsection \<open>The program\<close>

text \<open>
  The option loop, on the values \<^verbatim>\<open>getopt_long\<close> returns one after the other until
  it returns -1. The left result is an \<^verbatim>\<open>exit\<close> with what was printed.
\<close>

fun parse_options :: "database \<Rightarrow> char list \<Rightarrow> conf \<Rightarrow> (int \<times> line list) + conf" where
  "parse_options db [] c = Inr c"
| "parse_options db (x # xs) c =
     (if x = CHR ''a'' then Inl (0, [About])
      else if x = CHR ''b'' then parse_options db xs (c\<lparr>brief := True\<rparr>)
      else if x = CHR ''h'' then Inl (0, [Help])
      else if x = CHR ''s'' then parse_options db xs (c\<lparr>silent := True\<rparr>)
      else if x = CHR ''f'' then parse_options db xs (c\<lparr>force := True\<rparr>)
      else if x = CHR ''d'' then parse_options db xs (c\<lparr>mode := DETECT\<rparr>)
      else if x = CHR ''l'' then Inl (0, [Supported (supportedDevices db)])
      else Inl (2, [UnknownOption x, Help]))"

definition conf0 :: conf where
  "conf0 = \<lparr>brief = False, silent = False, force = False, mode = GET, amount = 0,
             open_mode = O_RDONLY\<rparr>"

definition state0 :: state where
  "state0 = \<lparr>brightness = 0, first_device = True, trace = [], out = []\<rparr>"

text \<open>
  The command line, on the option values of \<^verbatim>\<open>getopt_long\<close> and the remaining
  arguments \<^verbatim>\<open>argv[optind .. argc-1]\<close>: the option loop, the argument loop, the exit
  when no device path is left, and the choice of \<^verbatim>\<open>open_mode\<close>. The right result has
  the configuration, \<^verbatim>\<open>brightness\<close> and \<^verbatim>\<open>files\<close>.
\<close>

definition parse_command_line ::
  "database \<Rightarrow> char list \<Rightarrow> string list \<Rightarrow> (int \<times> line list) + (conf \<times> 32 word \<times> string list)" where
  "parse_command_line db opts params =
     (case parse_options db opts conf0 of
        Inl x \<Rightarrow> Inl x
      | Inr c \<Rightarrow>
          (case parse_params params (mode c, amount c, brightness state0, []) of
             (m, a, b, files) \<Rightarrow>
               if files = [] then Inl (1, [Help])
               else Inr (c\<lparr>mode := m, amount := a,
                           open_mode := (if m = SET \<or> m = SETREL then O_RDWR else O_RDONLY)\<rparr>,
                         b, files)))"

text \<open>
  \<^verbatim>\<open>main\<close> gives the exit status and the final state; falling off the end of
  \<^verbatim>\<open>main\<close> is status 0.
\<close>

definition main :: "env \<Rightarrow> char list \<Rightarrow> string list \<Rightarrow> int \<times> state" where
  "main e opts params =
     (let db = init_device_database
      in case parse_command_line db opts params of
           Inl (n, msgs) \<Rightarrow> (n, state0\<lparr>out := msgs\<rparr>)
         | Inr (c, b, files) \<Rightarrow>
             (let st = state0\<lparr>brightness := b\<rparr>;
                  st = (if \<not> silent c then print Notice st else st)
              in case run_files db e c files st of
                   (Exit n, st) \<Rightarrow> (n, st)
                 | (Next, st) \<Rightarrow> (0, st)))"

subsection \<open>Notions used to state the properties\<close>

text \<open>
  The trace after the applications \<open>0 .. k-1\<close> have been queried one after the
  other from the trace \<open>tr\<close>, and the value the driver then gives for application
  \<open>k\<close>.
\<close>

fun queried :: "env \<Rightarrow> 32 word \<Rightarrow> event list \<Rightarrow> nat \<Rightarrow> event list" where
  "queried e fd tr 0 = tr"
| "queried e fd tr (Suc k) =
     queried e fd tr k @ [APPLICATION fd k (hidiocapplication e (queried e fd tr k) fd k)]"

definition application_at :: "env \<Rightarrow> 32 word \<Rightarrow> event list \<Rightarrow> nat \<Rightarrow> 32 word" where
  "application_at e fd tr k = hidiocapplication e (queried e fd tr k) fd k"

text \<open>The write-class calls, the calls of a probe, and a transaction step that failed.\<close>

fun write_class :: "event \<Rightarrow> bool" where
  "write_class (INITREPORT fd r) = True"
| "write_class (SUSAGE fd u r) = True"
| "write_class (SREPORT fd i r) = True"
| "write_class ev = False"

fun probe_call :: "event \<Rightarrow> bool" where
  "probe_call (Open path m fd) = True"
| "probe_call (GVERSION fd v) = True"
| "probe_call (GDEVINFO fd di) = True"
| "probe_call (APPLICATION fd k r) = True"
| "probe_call ev = False"

fun failed_step :: "event \<Rightarrow> bool" where
  "failed_step (SUSAGE fd u r) = (sint r < 0)"
| "failed_step (SREPORT fd i r) = (sint r < 0)"
| "failed_step (GUSAGE fd u r v) = (sint r < 0)"
| "failed_step (GREPORT fd i r) = (sint r < 0)"
| "failed_step ev = False"

text \<open>The paths of the \<^verbatim>\<open>open\<close> calls and the brightness values of the \<^verbatim>\<open>HIDIOCSUSAGE\<close> calls of a trace, in order.\<close>

fun opened :: "event list \<Rightarrow> string list" where
  "opened [] = []"
| "opened (Open path m fd # evs) = path # opened evs"
| "opened (ev # evs) = opened evs"

fun sent_values :: "event list \<Rightarrow> 32 word list" where
  "sent_values [] = []"
| "sent_values (SUSAGE fd u r # evs) = usage_value u # sent_values evs"
| "sent_values (ev # evs) = sent_values evs"

text \<open>
  The exit status that the scheme 0/1/2/3 gives to a run with device paths, read
  off the last driver call of the run: 1 after a failed \<^verbatim>\<open>HIDIOCINITREPORT\<close>, 2 after
  a failed usage call or after the device information of a device that is not in
  the database (outside detection, without \<^verbatim>\<open>--force\<close>), 3 after a failed report
  call, 0 otherwise.
\<close>

fun exit_scheme :: "database \<Rightarrow> mode \<Rightarrow> bool \<Rightarrow> event \<Rightarrow> int" where
  "exit_scheme db m f (INITREPORT fd r) = (if sint r < 0 then 1 else 0)"
| "exit_scheme db m f (SUSAGE fd u r) = (if sint r < 0 then 2 else 0)"
| "exit_scheme db m f (GUSAGE fd u r v) = (if sint r < 0 then 2 else 0)"
| "exit_scheme db m f (SREPORT fd i r) = (if sint r < 0 then 3 else 0)"
| "exit_scheme db m f (GREPORT fd i r) = (if sint r < 0 then 3 else 0)"
| "exit_scheme db m f (GDEVINFO fd di) =
     (if m \<noteq> DETECT \<and> \<not> is_supported db di \<and> \<not> f then 2 else 0)"
| "exit_scheme db m f ev = 0"

text \<open>
  The exit status of a flow, and what a part of the program adds to the trace, with
  respect to a scheme \<open>S\<close> of exit statuses: a part is calm when every call it adds
  has status 0; it halts with \<open>n\<close> when the last call it adds has status \<open>n\<close> and
  the calls before have status 0; it is sound when it is calm if it goes on and halts
  with \<open>n\<close> if it exits with \<open>n\<close>.
\<close>

definition exit_status :: "flow \<Rightarrow> int" where
  "exit_status fl = (case fl of Next \<Rightarrow> 0 | Exit n \<Rightarrow> n)"

definition calm :: "(event \<Rightarrow> int) \<Rightarrow> state \<Rightarrow> state \<Rightarrow> bool" where
  "calm S st st' \<longleftrightarrow> (\<exists>evs. trace st' = trace st @ evs \<and> (\<forall>x \<in> set evs. S x = 0))"

definition halt :: "(event \<Rightarrow> int) \<Rightarrow> int \<Rightarrow> state \<Rightarrow> state \<Rightarrow> bool" where
  "halt S n st st' \<longleftrightarrow>
     (\<exists>evs. trace st' = trace st @ evs \<and> evs \<noteq> [] \<and> (\<forall>x \<in> set (butlast evs). S x = 0) \<and>
        S (last evs) = n)"

definition sound :: "(event \<Rightarrow> int) \<Rightarrow> state \<Rightarrow> flow \<times> state \<Rightarrow> bool" where
  "sound S st r \<longleftrightarrow> (case fst r of Next \<Rightarrow> calm S st (snd r) | Exit n \<Rightarrow> halt S n st (snd r))"

text \<open>
  The state after the warning for a device that is not in the database, and the
  state in which \<open>main\<close> enters the loop over the files.
\<close>

definition warn :: "database \<Rightarrow> hiddev_devinfo \<Rightarrow> state \<Rightarrow> state" where
  "warn db di st = (if \<not> is_supported db di then print (DeviceUnsupported di) st else st)"

definition start :: "conf \<Rightarrow> 32 word \<Rightarrow> state" where
  "start c b = (if \<not> silent c then print Notice (state0\<lparr>brightness := b\<rparr>)
                else state0\<lparr>brightness := b\<rparr>)"

text \<open>The lines a detection run may print: the class shown for a monitor is the one the database gives.\<close>

fun detect_line :: "database \<Rightarrow> line \<Rightarrow> bool" where
  "detect_line db Notice = True"
| "detect_line db (Perror path) = True"
| "detect_line db (DriverVersion v) = True"
| "detect_line db (DetectLine path s di) = (s = is_supported db di)"
| "detect_line db l = False"

text \<open>
  Two states agree when they differ in the printed lines at most, and two results
  agree when the flows are equal and the states agree.
\<close>

definition agree :: "state \<Rightarrow> state \<Rightarrow> bool" where
  "agree st st' \<longleftrightarrow>
     trace st = trace st' \<and> brightness st = brightness st' \<and> first_device st = first_device st'"

definition agree_result :: "flow \<times> state \<Rightarrow> flow \<times> state \<Rightarrow> bool" where
  "agree_result r r' \<longleftrightarrow> fst r = fst r' \<and> agree (snd r) (snd r')"

subsection \<open>Test devices\<close>

text \<open>
  A display that opens as descriptor 3, answers every application query with the
  same value, keeps the last brightness it was sent and succeeds in every call.
\<close>

fun last_set :: "event list \<Rightarrow> 32 word \<Rightarrow> 32 word" where
  "last_set [] cur = cur"
| "last_set (SUSAGE fd u r # evs) cur = last_set evs (usage_value u)"
| "last_set (ev # evs) cur = last_set evs cur"

definition display :: "hiddev_devinfo \<Rightarrow> 32 word \<Rightarrow> 32 word \<Rightarrow> env" where
  "display di app cur =
     \<lparr>sys_open = (\<lambda>h path m. 3),
      hidiocgversion = (\<lambda>h fd. 0x10004),
      hidiocgdevinfo = (\<lambda>h fd. di),
      hidiocapplication = (\<lambda>h fd k. app),
      hidiocinitreport = (\<lambda>h fd. 0),
      hidiocsusage = (\<lambda>h fd u. 0),
      hidiocsreport = (\<lambda>h fd i. 0),
      hidiocgusage = (\<lambda>h fd u. (0, last_set h cur)),
      hidiocgreport = (\<lambda>h fd i. 0)\<rparr>"

definition cinema20 :: hiddev_devinfo where
  "cinema20 = \<lparr>hiddev_devinfo.vendor = 0x05ac, product = 0x9219, num_applications = 1\<rparr>"

definition unknown_device :: hiddev_devinfo where
  "unknown_device = \<lparr>hiddev_devinfo.vendor = 0x1234, product = 0x0001, num_applications = 1\<rparr>"

text \<open>A device that is no monitor, and a database that has the unknown device only.\<close>

definition other_device :: hiddev_devinfo where
  "other_device = \<lparr>hiddev_devinfo.vendor = 0x046d, product = 0xc31c, num_applications = 2\<rparr>"

definition only_unknown :: database where
  "only_unknown = \<lparr>supportedVendors = [], supportedDevices = [mkDeviceId 0x1234 0x0001 []]\<rparr>"

section \<open>Properties\<close>

subsection \<open>The device database\<close>

lemma DeviceId_equiv_iff:
  "\<not> DeviceId_less x y \<and> \<not> DeviceId_less y x \<longleftrightarrow>
     DeviceId.vendor x = DeviceId.vendor y \<and> DeviceId.product x = DeviceId.product y"
  by (auto simp: DeviceId_less_def)

lemma set_find_iff:
  "set_find x ys \<noteq> None \<longleftrightarrow>
     (\<exists>d \<in> set ys. DeviceId.vendor d = DeviceId.vendor x \<and> DeviceId.product d = DeviceId.product x)"
proof (induction ys)
  case Nil
  show ?case by simp
next
  case (Cons y ys)
  show ?case
    using Cons.IH DeviceId_equiv_iff [of x y] by (simp only: set_find.simps list.set) auto
qed

lemma mask16_scast: "(scast (w :: 16 word) :: 32 word) AND 0xFFFF = ucast w"
proof -
  have m: "(0xFFFF :: 32 word) = mask 16" by (simp add: mask_eq_exp_minus_1)
  show ?thesis
    unfolding m
  proof (rule bit_word_eqI)
    fix n
    assume "n < LENGTH(32)"
    show "bit (scast w AND mask 16 :: 32 word) n = bit (ucast w :: 32 word) n"
    proof (cases "n < 16")
      case True
      then have "min 15 n = n" by simp
      with True show ?thesis by (simp add: bit_simps)
    next
      case False
      then show ?thesis using bit_imp_le_length [of w n] by (auto simp add: bit_simps)
    qed
  qed
qed

lemma supportedDevices_init:
  "map (\<lambda>d. (DeviceId.vendor d, DeviceId.product d)) (supportedDevices init_device_database) =
     [(0x0419, 0x8002), (0x05ac, 0x9215), (0x05ac, 0x9217), (0x05ac, 0x9218), (0x05ac, 0x9219),
      (0x05ac, 0x921e), (0x05ac, 0x9232)]"
  by (simp add: init_device_database_def insert_device_def insert_vendor_def mkDeviceId_def
      DeviceId_less_def APPLE_def SAMSUNG_def S1_def STUDIO_DISPLAY_15_def STUDIO_DISPLAY_17_def
      CINEMA_DISPLAY_23_OLD_def CINEMA_DISPLAY_20_OLD_def CINEMA_DISPLAY_24_def CINEMA_DISPLAY_30_def)

text \<open>
  C9. The identity of a device is its raw vendor and product fields masked with
  0xFFFF, which is the unsigned value of the 16-bit field. \<open>is_supported\<close> holds
  exactly when the database has an entry with this vendor and this product, whatever
  the other fields of the device information are; it is a function of the database
  and the identity alone. The database that \<open>init_device_database\<close> builds has no two
  entries with the same vendor and product.
\<close>

theorem registry_lookup_exact:
  "(is_supported db device_info \<longleftrightarrow>
      (\<exists>d \<in> set (supportedDevices db).
         DeviceId.vendor d = scast (hiddev_devinfo.vendor device_info) AND 0xFFFF \<and>
         DeviceId.product d = scast (hiddev_devinfo.product device_info) AND 0xFFFF)) \<and>
   scast (hiddev_devinfo.vendor device_info) AND (0xFFFF :: 32 word) =
     ucast (hiddev_devinfo.vendor device_info) \<and>
   scast (hiddev_devinfo.product device_info) AND (0xFFFF :: 32 word) =
     ucast (hiddev_devinfo.product device_info) \<and>
   distinct (map (\<lambda>d. (DeviceId.vendor d, DeviceId.product d))
     (supportedDevices init_device_database))"
proof -
  have "distinct (map (\<lambda>d. (DeviceId.vendor d, DeviceId.product d))
     (supportedDevices init_device_database))"
    unfolding supportedDevices_init by simp
  moreover have "is_supported db device_info \<longleftrightarrow>
      (\<exists>d \<in> set (supportedDevices db).
         DeviceId.vendor d = scast (hiddev_devinfo.vendor device_info) AND 0xFFFF \<and>
         DeviceId.product d = scast (hiddev_devinfo.product device_info) AND 0xFFFF)"
    unfolding is_supported_def Let_def set_find_iff by (simp add: mkDeviceId_def)
  ultimately show ?thesis
    by (simp add: mask16_scast)
qed

theorem registry_lookup_exact_witness:
  "is_supported init_device_database cinema20 \<and>
   \<not> is_supported init_device_database unknown_device"
proof -
  have a: "is_supported init_device_database cinema20"
    by code_simp
  have b: "\<not> (\<exists>d \<in> set (supportedDevices init_device_database).
         DeviceId.vendor d = scast (hiddev_devinfo.vendor unknown_device) AND 0xFFFF \<and>
         DeviceId.product d = scast (hiddev_devinfo.product unknown_device) AND 0xFFFF)"
    by code_simp
  show ?thesis
    using a b registry_lookup_exact [of init_device_database unknown_device]
    by simp
qed

subsection \<open>The monitor check: properties\<close>

lemma shift_mask: "signed_drop_bit 16 (a :: 32 word) AND 0xFF = drop_bit 16 a AND 0xFF"
proof -
  have m: "(0xFF :: 32 word) = mask 8" by (simp add: mask_eq_exp_minus_1)
  show ?thesis
    unfolding m
  proof (rule bit_word_eqI)
    fix n
    assume "n < LENGTH(32)"
    show "bit (signed_drop_bit 16 a AND mask 8) n = bit (drop_bit 16 a AND mask 8) n"
      by (auto simp add: bit_simps)
  qed
qed

lemma exists_from_Suc:
  assumes "\<not> P i"
  shows "(\<exists>k. Suc i \<le> k \<and> k < n \<and> P k) \<longleftrightarrow> (\<exists>k. i \<le> k \<and> k < n \<and> P k)"
proof
  assume "\<exists>k. Suc i \<le> k \<and> k < n \<and> P k"
  then obtain k where "Suc i \<le> k" "k < n" "P k" by blast
  then have "i \<le> k \<and> k < n \<and> P k" by simp
  then show "\<exists>k. i \<le> k \<and> k < n \<and> P k" ..
next
  assume "\<exists>k. i \<le> k \<and> k < n \<and> P k"
  then obtain k where k: "i \<le> k" "k < n" "P k" by blast
  with assms have "k \<noteq> i" by auto
  with k have "Suc i \<le> k \<and> k < n \<and> P k" by simp
  then show "\<exists>k. Suc i \<le> k \<and> k < n \<and> P k" ..
qed

lemma is_usb_monitor_loop_iff:
  "tr = queried e fd tr0 i \<Longrightarrow>
   fst (is_usb_monitor_loop e fd n i tr) \<longleftrightarrow>
     (\<exists>k. i \<le> k \<and> k < n \<and> monitor_page (application_at e fd tr0 k))"
proof (induction e fd n i tr rule: is_usb_monitor_loop.induct)
  case (1 e fd n i tr)
  show ?case
  proof (cases "i < n")
    case False
    then show ?thesis by (subst is_usb_monitor_loop.simps) auto
  next
    case True
    let ?a = "hidiocapplication e tr fd i"
    have a: "?a = application_at e fd tr0 i"
      using "1.prems" by (simp add: application_at_def)
    show ?thesis
    proof (cases "monitor_page ?a")
      case m: True
      have "fst (is_usb_monitor_loop e fd n i tr)"
        using True m by (subst is_usb_monitor_loop.simps) (simp add: Let_def)
      moreover have "\<exists>k. i \<le> k \<and> k < n \<and> monitor_page (application_at e fd tr0 k)"
        using True m a by auto
      ultimately show ?thesis by simp
    next
      case m: False
      have q: "tr @ [APPLICATION fd i ?a] = queried e fd tr0 (Suc i)"
        using "1.prems" by simp
      have "fst (is_usb_monitor_loop e fd n i tr) =
            fst (is_usb_monitor_loop e fd n (Suc i) (tr @ [APPLICATION fd i ?a]))"
        using True m by (subst is_usb_monitor_loop.simps) (simp add: Let_def)
      also have "\<dots> \<longleftrightarrow> (\<exists>k. Suc i \<le> k \<and> k < n \<and> monitor_page (application_at e fd tr0 k))"
        using "1.IH" [OF True refl refl m q] .
      also have "\<dots> \<longleftrightarrow> (\<exists>k. i \<le> k \<and> k < n \<and> monitor_page (application_at e fd tr0 k))"
        using m a by (intro exists_from_Suc) simp
      finally show ?thesis .
    qed
  qed
qed

lemma is_usb_monitor_out: "out (snd (is_usb_monitor e device_info fd st)) = out st"
  by (simp add: is_usb_monitor_def split: prod.splits)

text \<open>
  C6. \<open>is_usb_monitor\<close> is true exactly when, for some index below
  \<open>num_applications\<close>, the value the driver gives for that application has 0x80 in
  its bits 16 to 23. A query that fails gives -1, whose bits 16 to 23 are 0xFF: it is
  an application that does not match, and the check goes on; the check itself always
  returns a truth value.
\<close>

theorem is_usb_monitor_iff:
  "(fst (is_usb_monitor e device_info fd st) \<longleftrightarrow>
      (\<exists>k < unat (num_applications device_info).
         drop_bit 16 (application_at e fd (trace st) k) AND 0xFF = 0x80)) \<and>
   drop_bit 16 (- 1 :: 32 word) AND 0xFF \<noteq> 0x80"
proof -
  have "fst (is_usb_monitor e device_info fd st) =
        fst (is_usb_monitor_loop e fd (unat (num_applications device_info)) 0 (trace st))"
    by (simp add: is_usb_monitor_def split: prod.splits)
  also have "\<dots> \<longleftrightarrow> (\<exists>k. 0 \<le> k \<and> k < unat (num_applications device_info) \<and>
      monitor_page (application_at e fd (trace st) k))"
    by (rule is_usb_monitor_loop_iff) simp
  finally have "fst (is_usb_monitor e device_info fd st) \<longleftrightarrow>
      (\<exists>k < unat (num_applications device_info).
         drop_bit 16 (application_at e fd (trace st) k) AND 0xFF = 0x80)"
    by (simp add: monitor_page_def shift_mask)
  moreover have "drop_bit 16 (- 1 :: 32 word) AND 0xFF \<noteq> 0x80"
    by (simp add: mask_eq_exp_minus_1)
  ultimately show ?thesis by blast
qed

theorem is_usb_monitor_iff_witness:
  "fst (is_usb_monitor (display cinema20 0x800001 0) cinema20 3 state0) \<and>
   \<not> fst (is_usb_monitor (display cinema20 (- 1) 0) cinema20 3 state0)"
proof -
  have n: "unat (num_applications cinema20) = 1"
    by (simp add: cinema20_def)
  have a: "drop_bit 16 (application_at (display cinema20 0x800001 0) 3 (trace state0) 0) AND 0xFF
      = (0x80 :: 32 word)"
    by (simp add: application_at_def display_def)
  have b: "drop_bit 16 (application_at (display cinema20 (- 1) 0) 3 (trace state0) 0) AND 0xFF
      \<noteq> (0x80 :: 32 word)"
    by (simp add: application_at_def display_def mask_eq_exp_minus_1)
  show ?thesis
    using a b
      is_usb_monitor_iff [of "display cinema20 0x800001 0" cinema20 3 state0]
      is_usb_monitor_iff [of "display cinema20 (- 1) 0" cinema20 3 state0]
    by (simp add: n)
qed

subsection \<open>Arguments: properties\<close>

lemma parse_params_append:
  "parse_params (xs @ ys) v = parse_params ys (parse_params xs v)"
proof (induction xs arbitrary: v)
  case Nil
  show ?case by simp
next
  case (Cons x xs)
  obtain m a b fs where v: "v = (m, a, b, fs)" by (cases v)
  show ?case unfolding v by (simp add: Cons.IH)
qed

lemma parse_params_not_DETECT:
  "m \<noteq> DETECT \<Longrightarrow> fst (parse_params args (m, a, b, fs)) \<noteq> DETECT"
  by (induction args arbitrary: m a b fs) auto

lemma parse_params_DETECT:
  "parse_params args (DETECT, a, b, fs) = (DETECT, a, b, fs @ args)"
  by (induction args arbitrary: fs) auto

lemma parse_params_files:
  "m \<noteq> DETECT \<Longrightarrow>
   snd (snd (snd (parse_params args (m, a, b, fs)))) = fs @ filter (\<lambda>x. \<not> number x) args"
  by (induction args arbitrary: m a b fs) auto

lemma parse_params_no_number:
  "filter number args = [] \<Longrightarrow> parse_params args (m, a, b, fs) = (m, a, b, fs @ args)"
  by (induction args arbitrary: fs) (auto split: if_splits)

lemma parse_params_last:
  assumes "m \<noteq> DETECT" and "filter number args \<noteq> []"
    and "parse_params args (m, a, b, fs) = (m', a', b', fs')"
  shows "if first_char (last (filter number args)) = CHR ''+'' \<or>
            first_char (last (filter number args)) = CHR ''-''
         then m' = SETREL \<and> a' = atoi (last (filter number args))
         else m' = SET \<and> b' = atoi (last (filter number args))"
  using assms
proof (induction args arbitrary: m' a' b' fs' rule: rev_induct)
  case Nil
  then show ?case by simp
next
  case (snoc x xs)
  obtain m1 a1 b1 f1 where p: "parse_params xs (m, a, b, fs) = (m1, a1, b1, f1)"
    by (cases "parse_params xs (m, a, b, fs)")
  have nd: "m1 \<noteq> DETECT"
    using parse_params_not_DETECT [OF snoc.prems(1), of xs a b fs] p by simp
  show ?case
  proof (cases "number x")
    case True
    then show ?thesis
      using snoc.prems(3) nd by (auto simp: parse_params_append p)
  next
    case False
    then have "filter number xs \<noteq> []" using snoc.prems(2) by simp
    moreover have "parse_params xs (m, a, b, fs) = (m', a', b', f1)"
      using snoc.prems(3) False by (auto simp: parse_params_append p)
    ultimately show ?thesis
      using snoc.IH [OF snoc.prems(1)] False by simp
  qed
qed

lemma number_first_char:
  "number x \<longleftrightarrow> isdigit (first_char x) \<or> first_char x = CHR ''+'' \<or> first_char x = CHR ''-''"
  by (simp add: number_def isdigit_def)

text \<open>
  C10. Outside detection, the arguments kept as device paths are those that
  \<open>number\<close> rejects, in order; \<open>number\<close> looks at the first character only
  (a digit, \<open>+\<close> or \<open>-\<close>), so that \<open>-x\<close> is a relative change, and \<open>atoi\<close> makes it 0.
  When there are such arguments, the last one decides: with a sign the mode is
  \<open>SETREL\<close> and the amount is its value, without one the mode is \<open>SET\<close> and the
  brightness is its value. When there are none, mode, amount and brightness are
  unchanged.
\<close>

theorem parse_params_numbers:
  assumes "m \<noteq> DETECT" and "parse_params args (m, a, b, fs) = (m', a', b', fs')"
  shows "fs' = fs @ filter (\<lambda>x. \<not> number x) args \<and>
         (\<forall>x. number x \<longleftrightarrow>
            isdigit (first_char x) \<or> first_char x = CHR ''+'' \<or> first_char x = CHR ''-'') \<and>
         (filter number args = [] \<longrightarrow> m' = m \<and> a' = a \<and> b' = b) \<and>
         (filter number args \<noteq> [] \<longrightarrow>
            (if first_char (last (filter number args)) = CHR ''+'' \<or>
                first_char (last (filter number args)) = CHR ''-''
             then m' = SETREL \<and> a' = atoi (last (filter number args))
             else m' = SET \<and> b' = atoi (last (filter number args)))) \<and>
         number ''-x'' \<and> atoi ''-x'' = 0"
proof -
  have "fs' = fs @ filter (\<lambda>x. \<not> number x) args"
    using parse_params_files [OF assms(1), of args a b fs] assms(2) by simp
  moreover have "filter number args = [] \<longrightarrow> m' = m \<and> a' = a \<and> b' = b"
    using parse_params_no_number [of args m a b fs] assms(2) by simp
  moreover have "filter number args \<noteq> [] \<longrightarrow>
            (if first_char (last (filter number args)) = CHR ''+'' \<or>
                first_char (last (filter number args)) = CHR ''-''
             then m' = SETREL \<and> a' = atoi (last (filter number args))
             else m' = SET \<and> b' = atoi (last (filter number args)))"
    using parse_params_last [OF assms(1) _ assms(2)] by blast
  moreover have "number ''-x'' \<and> atoi ''-x'' = 0"
    by (simp add: number_def atoi_def strtol_def first_char_def isspace_def isdigit_def)
  ultimately show ?thesis
    using number_first_char by blast
qed

theorem parse_params_numbers_witness:
  "parse_params [''/dev/hiddev0'', ''7'', ''-x'', ''/dev/hiddev1''] (GET, 0, 0, []) =
     (SETREL, 0, 7, [''/dev/hiddev0'', ''/dev/hiddev1''])"
proof -
  have p: "parse_params [''/dev/hiddev0'', ''7'', ''-x'', ''/dev/hiddev1''] (GET, 0, 0, []) =
     (SETREL, 0, 7, [''/dev/hiddev0'', ''/dev/hiddev1''])"
    by code_simp
  have g: "GET \<noteq> DETECT" by simp
  show ?thesis
    using parse_params_numbers [OF g p] p by simp
qed

subsection \<open>Traces and exit statuses\<close>

lemma calm_refl: "calm S st st"
  by (simp add: calm_def)

lemma calm_trans: "calm S a b \<Longrightarrow> calm S b c \<Longrightarrow> calm S a c"
  by (auto simp: calm_def)

lemma calm_halt: "calm S a b \<Longrightarrow> halt S n b c \<Longrightarrow> halt S n a c"
  by (auto simp: calm_def halt_def butlast_append)

lemma calm_sound: "calm S a b \<Longrightarrow> sound S b r \<Longrightarrow> sound S a r"
  by (auto simp: sound_def split: flow.splits intro: calm_trans calm_halt)

lemma calm_print: "calm S st (print l st)"
  by (simp add: calm_def print_def)

lemma calm_log: "S ev = 0 \<Longrightarrow> calm S st (log ev st)"
  by (simp add: calm_def log_def)

lemma halt_log: "S ev = n \<Longrightarrow> halt S n st (log ev st)"
  by (simp add: halt_def log_def)

lemma halt_print: "halt S n st st' \<Longrightarrow> halt S n st (print l st')"
  by (simp add: halt_def print_def)

lemma set_usage_report_sound:
  "sound (exit_scheme db m f) st (set_usage_report e fd u ri st)"
  by (simp add: set_usage_report_def Let_def sound_def calm_def halt_def log_def print_def)

lemma get_usage_report_sound:
  "sound (exit_scheme db m f) st
     (fst (get_usage_report e fd u ri st), snd (snd (get_usage_report e fd u ri st)))"
  by (simp add: get_usage_report_def Let_def sound_def calm_def halt_def log_def print_def
      split: prod.splits)

lemma close_device_sound:
  "sound (exit_scheme db m f) st (close_device fd st)"
  by (simp add: close_device_def sound_def calm_def log_def)

lemma print_brightness_calm: "calm S st (print_brightness c path u st)"
  by (simp add: print_brightness_def calm_def print_def)

lemma calm_brightness: "calm S st (st\<lparr>brightness := b\<rparr>)"
  by (simp add: calm_def)

lemma sound_NextD: "sound S st (Next, st') \<Longrightarrow> calm S st st'"
  by (simp add: sound_def)

lemma sound_ExitI: "halt S n st st' \<Longrightarrow> sound S st (Exit n, st')"
  by (simp add: sound_def)

lemma transaction_sound:
  "sound (exit_scheme db m f) st (transaction e c path fd st)"
proof -
  let ?S = "exit_scheme db m f"
  let ?r = "hidiocinitreport e (trace st) fd"
  let ?st1 = "log (INITREPORT fd ?r) st"
  show ?thesis
  proof (cases "sint ?r < 0")
    case True
    have "halt ?S 1 st (print FatalInit ?st1)"
      using True by (intro halt_print halt_log) simp
    then show ?thesis
      using True by (simp add: transaction_def Let_def sound_def)
  next
    case False
    have c1: "calm ?S st ?st1"
      using False by (intro calm_log) simp
    define u where "u = \<lparr>hiddev_usage_ref.report_type = HID_REPORT_TYPE_FEATURE,
                 report_id = BRIGHTNESS_CONTROL, field_index = 0, usage_index = 0,
                 usage_code = USAGE_CODE, usage_value = brightness ?st1\<rparr>"
    define ri where "ri = \<lparr>hiddev_report_info.report_type = HID_REPORT_TYPE_FEATURE,
                 report_id = BRIGHTNESS_CONTROL, num_fields = 1\<rparr>"
    show ?thesis
    proof (cases "mode c = SET")
      case True
      obtain fl s2 where s: "set_usage_report e fd u ri ?st1 = (fl, s2)"
        by (cases "set_usage_report e fd u ri ?st1")
      have snd1: "sound ?S ?st1 (fl, s2)"
        using set_usage_report_sound [of db m f ?st1 e fd u ri] s by simp
      have t: "transaction e c path fd st =
          (case fl of Exit n \<Rightarrow> (Exit n, s2) | Next \<Rightarrow> close_device fd s2)"
        using False True s by (simp add: transaction_def Let_def u_def ri_def split: flow.splits)
      show ?thesis
      proof (cases fl)
        case Next
        then show ?thesis
          unfolding t using snd1 c1 close_device_sound [of db m f s2 fd]
          by (auto intro: calm_sound dest: sound_NextD)
      next
        case (Exit n)
        then show ?thesis
          unfolding t using snd1 c1 by (auto intro: calm_sound)
      qed
    next
      case notset: False
      obtain fl u2 s2 where g: "get_usage_report e fd u ri ?st1 = (fl, u2, s2)"
        by (cases "get_usage_report e fd u ri ?st1")
      have snd1: "sound ?S ?st1 (fl, s2)"
        using get_usage_report_sound [of db m f ?st1 e fd u ri] g by simp
      show ?thesis
      proof (cases fl)
        case (Exit n)
        have "transaction e c path fd st = (Exit n, s2)"
          using False notset g Exit by (simp add: transaction_def Let_def u_def ri_def)
        then show ?thesis
          using snd1 c1 Exit by (auto intro: calm_sound)
      next
        case Next
        have c2: "calm ?S st s2"
          using snd1 c1 Next by (auto intro: calm_trans dest: sound_NextD)
        show ?thesis
        proof (cases "mode c = SETREL")
          case False
          have "transaction e c path fd st = close_device fd (print_brightness c path u2 s2)"
            using \<open>\<not> sint ?r < 0\<close> notset g Next False
            by (simp add: transaction_def Let_def u_def ri_def)
          then show ?thesis
            using c2 close_device_sound [of db m f "print_brightness c path u2 s2" fd]
              print_brightness_calm [of ?S s2 c path u2]
            by (auto intro: calm_sound calm_trans)
        next
          case True
          define b where "b = int_min 255 (int_max 0 (usage_value u2 + amount c))"
          define u3 where "u3 = u2\<lparr>usage_value := b\<rparr>"
          define s3 where "s3 = s2\<lparr>brightness := b\<rparr>"
          have c3: "calm ?S st s3"
            using c2 calm_brightness [of ?S s2 b] by (auto simp: s3_def intro: calm_trans)
          obtain fl4 s4 where s: "set_usage_report e fd u3 ri s3 = (fl4, s4)"
            by (cases "set_usage_report e fd u3 ri s3")
          have snd4: "sound ?S s3 (fl4, s4)"
            using set_usage_report_sound [of db m f s3 e fd u3 ri] s by simp
          obtain fl5 u5 s5 where g5: "get_usage_report e fd u3 ri s4 = (fl5, u5, s5)"
            by (cases "get_usage_report e fd u3 ri s4")
          have snd5: "sound ?S s4 (fl5, s5)"
            using get_usage_report_sound [of db m f s4 e fd u3 ri] g5 by simp
          have t: "transaction e c path fd st =
            (case fl4 of Exit n \<Rightarrow> (Exit n, s4)
             | Next \<Rightarrow> (case fl5 of Exit n \<Rightarrow> (Exit n, s5)
                 | Next \<Rightarrow> close_device fd (print_brightness c path u5 s5)))"
            using \<open>\<not> sint ?r < 0\<close> notset g Next True s g5
            by (simp add: transaction_def Let_def u_def ri_def b_def u3_def s3_def
                split: flow.splits)
          show ?thesis
          proof (cases fl4)
            case (Exit n)
            then show ?thesis unfolding t using snd4 c3 by (auto intro: calm_sound)
          next
            case n4: Next
            have c4: "calm ?S st s4"
              using snd4 c3 n4 by (auto intro: calm_trans dest: sound_NextD)
            show ?thesis
            proof (cases fl5)
              case (Exit n)
              then show ?thesis unfolding t using n4 snd5 c4 by (auto intro: calm_sound)
            next
              case n5: Next
              have c5: "calm ?S st s5"
                using snd5 c4 n5 by (auto intro: calm_trans dest: sound_NextD)
              show ?thesis
                unfolding t using n4 n5 c5
                  close_device_sound [of db m f "print_brightness c path u5 s5" fd]
                  print_brightness_calm [of ?S s5 c path u5]
                by (auto intro: calm_sound calm_trans)
            qed
          qed
        qed
      qed
    qed
  qed
qed


lemma is_usb_monitor_loop_trace:
  "\<exists>evs. snd (is_usb_monitor_loop e fd n i tr) = tr @ evs \<and> (\<forall>x \<in> set evs. probe_call x \<and> (\<exists>k r. x = APPLICATION fd k r))"
proof (induction e fd n i tr rule: is_usb_monitor_loop.induct)
  case (1 e fd n i tr)
  show ?case
  proof (cases "i < n")
    case False
    then show ?thesis by (subst is_usb_monitor_loop.simps) simp
  next
    case True
    let ?a = "hidiocapplication e tr fd i"
    show ?thesis
    proof (cases "monitor_page ?a")
      case m: True
      have "snd (is_usb_monitor_loop e fd n i tr) = tr @ [APPLICATION fd i ?a]"
        using True m by (subst is_usb_monitor_loop.simps) (simp add: Let_def)
      then show ?thesis by simp
    next
      case m: False
      have eq: "snd (is_usb_monitor_loop e fd n i tr) =
            snd (is_usb_monitor_loop e fd n (Suc i) (tr @ [APPLICATION fd i ?a]))"
        using True m by (subst is_usb_monitor_loop.simps) (simp add: Let_def)
      obtain evs where "snd (is_usb_monitor_loop e fd n (Suc i) (tr @ [APPLICATION fd i ?a])) =
          (tr @ [APPLICATION fd i ?a]) @ evs"
        and "\<forall>x \<in> set evs. probe_call x \<and> (\<exists>k r. x = APPLICATION fd k r)"
        using "1.IH" [OF True refl refl m] by blast
      then have "snd (is_usb_monitor_loop e fd n i tr) = tr @ (APPLICATION fd i ?a # evs) \<and>
          (\<forall>x \<in> set (APPLICATION fd i ?a # evs). probe_call x \<and> (\<exists>k r. x = APPLICATION fd k r))"
        using eq by simp
      then show ?thesis by blast
    qed
  qed
qed

lemma is_usb_monitor_state:
  "\<exists>evs. snd (is_usb_monitor e di fd st) = st\<lparr>trace := trace st @ evs\<rparr> \<and>
     (\<forall>x \<in> set evs. \<exists>k r. x = APPLICATION fd k r)"
  using is_usb_monitor_loop_trace [of e fd "unat (num_applications di)" 0 "trace st"]
  by (auto simp: is_usb_monitor_def split_beta)

lemma is_usb_monitor_calm:
  "calm (exit_scheme db m f) st (snd (is_usb_monitor e di fd st))"
proof -
  obtain evs where "snd (is_usb_monitor e di fd st) = st\<lparr>trace := trace st @ evs\<rparr>"
    and "\<forall>x \<in> set evs. \<exists>k r. x = APPLICATION fd k r"
    using is_usb_monitor_state by blast
  then show ?thesis
    by (auto simp: calm_def)
qed

lemma open_device_trace:
  "open_device e c path st = (fd, st1) \<Longrightarrow>
     st1 = log (Open path (open_mode c) fd) st \<and> fd = sys_open e (trace st) path (open_mode c)"
  by (auto simp: open_device_def Let_def)

lemma read_info_trace:
  "read_info e c fd st = (di, st2) \<Longrightarrow>
     \<exists>v. trace st2 = trace st @ [GVERSION fd v, GDEVINFO fd di]"
  by (auto simp: read_info_def Let_def log_def print_def)

lemma loop_body_sound:
  "sound (exit_scheme db (mode c) (force c)) st (loop_body db e c path st)"
proof -
  let ?S = "exit_scheme db (mode c) (force c)"
  obtain fd st1 where o: "open_device e c path st = (fd, st1)"
    by (cases "open_device e c path st")
  have c1: "calm ?S st st1"
    using open_device_trace [OF o] by (auto intro: calm_log)
  show ?thesis
  proof (cases "sint fd < 0")
    case True
    then have "loop_body db e c path st = (Next, print (Perror path) st1)"
      by (simp add: loop_body_def o)
    then show ?thesis
      using c1 calm_print [of ?S st1] by (auto simp: sound_def intro: calm_trans)
  next
    case False
    obtain di st2 where r: "read_info e c fd st1 = (di, st2)"
      by (cases "read_info e c fd st1")
    obtain v where t2: "trace st2 = trace st1 @ [GVERSION fd v, GDEVINFO fd di]"
      using read_info_trace [OF r] by blast
    show ?thesis
    proof (cases "mode c = DETECT")
      case True
      have c2: "calm ?S st1 st2"
        using t2 True by (simp add: calm_def)
      obtain mm st3 where u: "is_usb_monitor e di fd st2 = (mm, st3)"
        by (cases "is_usb_monitor e di fd st2")
      have c3: "calm ?S st2 st3"
        using is_usb_monitor_calm [of db "mode c" "force c" st2 e di fd] u by simp
      have "loop_body db e c path st =
          (Next, if mm then print (DetectLine path (is_supported db di) di) st3 else st3)"
        using False True by (simp add: loop_body_def o r u)
      then show ?thesis
        using c1 c2 c3 calm_print [of ?S st3]
        by (auto simp: sound_def intro: calm_trans)
    next
      case nd: False
      define st2' where "st2' = (if \<not> is_supported db di then print (DeviceUnsupported di) st2 else st2)"
      have t2': "trace st2' = trace st2"
        by (simp add: st2'_def print_def)
      show ?thesis
      proof (cases "\<not> is_supported db di \<and> \<not> force c")
        case True
        have "loop_body db e c path st = (Exit 2, st2')"
          using False nd True by (simp add: loop_body_def o r st2'_def)
        moreover have "halt ?S 2 st1 st2'"
          using t2 t2' True nd by (simp add: halt_def)
        ultimately show ?thesis
          using c1 by (auto simp: sound_def intro: calm_halt)
      next
        case ok: False
        have c2: "calm ?S st1 st2'"
          using t2 t2' ok nd by (auto simp: calm_def)
        obtain mm st3 where u: "is_usb_monitor e di fd st2' = (mm, st3)"
          by (cases "is_usb_monitor e di fd st2'")
        have c3: "calm ?S st2' st3"
          using is_usb_monitor_calm [of db "mode c" "force c" st2' e di fd] u by simp
        have c4: "calm ?S st st3"
          using c1 c2 c3 by (auto intro: calm_trans)
        have lb: "loop_body db e c path st =
            (if \<not> mm then (Next, print (NotUsbMonitor path) st3) else transaction e c path fd st3)"
          using False nd ok u by (auto simp add: loop_body_def o r st2'_def Let_def)
        show ?thesis
        proof (cases mm)
          case True
          then show ?thesis
            unfolding lb using c4 transaction_sound [of db "mode c" "force c" st3 e c path fd]
            by (auto intro: calm_sound)
        next
          case False
          then show ?thesis
            unfolding lb using c4 calm_print [of ?S st3]
            by (auto simp: sound_def intro: calm_trans)
        qed
      qed
    qed
  qed
qed


lemma run_files_sound:
  "sound (exit_scheme db (mode c) (force c)) st (run_files db e c files st)"
proof (induction files arbitrary: st)
  case Nil
  show ?case by (simp add: sound_def calm_refl)
next
  case (Cons p ps)
  obtain fl st1 where b: "loop_body db e c p st = (fl, st1)"
    by (cases "loop_body db e c p st")
  have s: "sound (exit_scheme db (mode c) (force c)) st (fl, st1)"
    using loop_body_sound [of db c st e p] b by simp
  show ?case
  proof (cases fl)
    case Next
    then show ?thesis
      using s Cons.IH [of st1] b by (auto intro: calm_sound dest: sound_NextD)
  next
    case (Exit n)
    then show ?thesis using s b by simp
  qed
qed

lemma opened_append: "opened (xs @ ys) = opened xs @ opened ys"
  by (induction xs rule: opened.induct) auto


lemmas txn_defs = transaction_def set_usage_report_def get_usage_report_def close_device_def
  print_brightness_def Let_def log_def print_def

lemma transaction_opened:
  "opened (trace (snd (transaction e c path fd st))) = opened (trace st)"
  by (simp add: txn_defs opened_append split: prod.splits)

lemma opened_applications:
  "\<forall>x \<in> set evs. \<exists>k r. x = APPLICATION fd k r \<Longrightarrow> opened evs = []"
  by (induction evs) auto


lemma is_usb_monitor_opened:
  "is_usb_monitor e di fd st = (m, st') \<Longrightarrow> opened (trace st') = opened (trace st)"
  using is_usb_monitor_state [of e di fd st] by (auto simp: opened_append opened_applications)


lemma is_usb_monitor_frame:
  "is_usb_monitor e di fd st = (m, st') \<Longrightarrow>
     brightness st' = brightness st \<and> first_device st' = first_device st \<and> out st' = out st"
  by (auto simp: is_usb_monitor_def split: prod.splits)

lemma loop_body_cases [case_names open_failed detect unsupported not_monitor transact]:
  obtains
    fd st1 where "open_device e c path st = (fd, st1)" and "sint fd < 0"
      and "loop_body db e c path st = (Next, print (Perror path) st1)"
  | fd st1 di st2 m st3 where "open_device e c path st = (fd, st1)" and "\<not> sint fd < 0"
      and "read_info e c fd st1 = (di, st2)" and "mode c = DETECT"
      and "is_usb_monitor e di fd st2 = (m, st3)"
      and "loop_body db e c path st =
        (Next, if m then print (DetectLine path (is_supported db di) di) st3 else st3)"
  | fd st1 di st2 where "open_device e c path st = (fd, st1)" and "\<not> sint fd < 0"
      and "read_info e c fd st1 = (di, st2)" and "mode c \<noteq> DETECT"
      and "\<not> is_supported db di" and "\<not> force c"
      and "loop_body db e c path st = (Exit 2, print (DeviceUnsupported di) st2)"
  | fd st1 di st2 st3 where "open_device e c path st = (fd, st1)" and "\<not> sint fd < 0"
      and "read_info e c fd st1 = (di, st2)" and "mode c \<noteq> DETECT"
      and "is_supported db di \<or> force c"
      and "is_usb_monitor e di fd (warn db di st2) = (False, st3)"
      and "loop_body db e c path st = (Next, print (NotUsbMonitor path) st3)"
  | fd st1 di st2 st3 where "open_device e c path st = (fd, st1)" and "\<not> sint fd < 0"
      and "read_info e c fd st1 = (di, st2)" and "mode c \<noteq> DETECT"
      and "is_supported db di \<or> force c"
      and "is_usb_monitor e di fd (warn db di st2) = (True, st3)"
      and "loop_body db e c path st = transaction e c path fd st3"
proof -
  obtain fd st1 where o: "open_device e c path st = (fd, st1)"
    by (cases "open_device e c path st")
  show thesis
  proof (cases "sint fd < 0")
    case True
    then have "loop_body db e c path st = (Next, print (Perror path) st1)"
      by (simp add: loop_body_def o)
    with o True show thesis by (rule that(1))
  next
    case False
    obtain di st2 where r: "read_info e c fd st1 = (di, st2)"
      by (cases "read_info e c fd st1")
    show thesis
    proof (cases "mode c = DETECT")
      case True
      obtain m st3 where u: "is_usb_monitor e di fd st2 = (m, st3)"
        by (cases "is_usb_monitor e di fd st2")
      have "loop_body db e c path st =
          (Next, if m then print (DetectLine path (is_supported db di) di) st3 else st3)"
        using False True by (simp add: loop_body_def o r u)
      with o False r True u show thesis by (rule that(2))
    next
      case nd: False
      show thesis
      proof (cases "\<not> is_supported db di \<and> \<not> force c")
        case True
        then have "loop_body db e c path st = (Exit 2, print (DeviceUnsupported di) st2)"
          using False nd by (simp add: loop_body_def o r)
        with o False r nd True show thesis by (intro that(3)) auto
      next
        case ok: False
        then have ok': "is_supported db di \<or> force c" by blast
        obtain m st3 where u: "is_usb_monitor e di fd (warn db di st2) = (m, st3)"
          by (cases "is_usb_monitor e di fd (warn db di st2)")
        have lb: "loop_body db e c path st =
            (if \<not> m then (Next, print (NotUsbMonitor path) st3) else transaction e c path fd st3)"
          using False nd ok u by (auto simp add: loop_body_def o r warn_def Let_def)
        show thesis
        proof (cases m)
          case True
          with lb have "loop_body db e c path st = transaction e c path fd st3" by simp
          with o False r nd ok' u True show thesis by (intro that(5)) auto
        next
          case m: False
          with lb have "loop_body db e c path st = (Next, print (NotUsbMonitor path) st3)" by simp
          with o False r nd ok' u m show thesis by (intro that(4)) auto
        qed
      qed
    qed
  qed
qed

lemma open_device_opened:
  "open_device e c path st = (fd, st1) \<Longrightarrow> opened (trace st1) = opened (trace st) @ [path]"
  by (auto simp: open_device_def Let_def log_def opened_append)

lemma read_info_opened:
  "read_info e c fd st = (di, st2) \<Longrightarrow> opened (trace st2) = opened (trace st)"
  by (auto simp: read_info_def Let_def log_def print_def opened_append)

lemma trace_print [simp]: "trace (print l st) = trace st"
  by (simp add: print_def)

lemma trace_warn [simp]: "trace (warn db di st) = trace st"
  by (simp add: warn_def)

lemma loop_body_opened:
  "opened (trace (snd (loop_body db e c path st))) = opened (trace st) @ [path]"
proof (cases rule: loop_body_cases [of e c path st db])
  case (open_failed fd st1)
  then show ?thesis by (simp add: open_device_opened)
next
  case (detect fd st1 di st2 m st3)
  then show ?thesis
    using is_usb_monitor_opened [of e di fd st2 m st3]
    by (simp add: open_device_opened read_info_opened)
next
  case (unsupported fd st1 di st2)
  then show ?thesis by (simp add: open_device_opened read_info_opened)
next
  case (not_monitor fd st1 di st2 st3)
  then show ?thesis
    using is_usb_monitor_opened [of e di fd "warn db di st2" False st3]
    by (simp add: open_device_opened read_info_opened)
next
  case (transact fd st1 di st2 st3)
  then show ?thesis
    using is_usb_monitor_opened [of e di fd "warn db di st2" True st3]
    by (simp add: open_device_opened read_info_opened transaction_opened)
qed

lemma sound_extends: "sound S st r \<Longrightarrow> \<exists>evs. trace (snd r) = trace st @ evs"
  by (auto simp: sound_def calm_def halt_def split: flow.splits)

lemma run_files_nonempty:
  assumes "files \<noteq> []"
  shows "trace (snd (run_files db e c files st)) \<noteq> []"
proof -
  obtain p ps where f: "files = p # ps" using assms by (cases files) auto
  obtain fl st1 where b: "loop_body db e c p st = (fl, st1)"
    by (cases "loop_body db e c p st")
  have "opened (trace st1) \<noteq> []"
    using loop_body_opened [of db e c p st] b by simp
  then have n1: "trace st1 \<noteq> []" by auto
  show ?thesis
  proof (cases fl)
    case (Exit n)
    then show ?thesis using f b n1 by simp
  next
    case Next
    then have "run_files db e c files st = run_files db e c ps st1"
      using f b by simp
    moreover obtain evs where "trace (snd (run_files db e c ps st1)) = trace st1 @ evs"
      using sound_extends [OF run_files_sound [of db c st1 e ps]] by blast
    ultimately show ?thesis using n1 by simp
  qed
qed

lemma trace_start: "trace (start c b) = []"
  by (simp add: start_def state0_def print_def)

lemma main_run:
  assumes "parse_command_line init_device_database opts params = Inr (c, b, files)"
  shows "main e opts params =
     (exit_status (fst (run_files init_device_database e c files (start c b))),
      snd (run_files init_device_database e c files (start c b)))"
  using assms
  by (auto simp: main_def Let_def start_def exit_status_def split: prod.splits flow.splits)

lemma parse_command_line_files:
  "parse_command_line db opts params = Inr (c, b, files) \<Longrightarrow> files \<noteq> []"
  by (auto simp: parse_command_line_def split: sum.splits prod.splits if_splits)

lemma run_code:
  assumes "trace st = []" and "files \<noteq> []"
  shows "exit_status (fst (run_files db e c files st)) =
         exit_scheme db (mode c) (force c) (last (trace (snd (run_files db e c files st))))
       \<and> (\<forall>x \<in> set (butlast (trace (snd (run_files db e c files st)))).
            exit_scheme db (mode c) (force c) x = 0)"
proof -
  let ?R = "run_files db e c files st"
  have s: "sound (exit_scheme db (mode c) (force c)) st ?R"
    by (rule run_files_sound)
  have ne: "trace (snd ?R) \<noteq> []"
    using assms(2) by (rule run_files_nonempty)
  show ?thesis
  proof (cases "fst ?R")
    case Next
    then have "\<forall>x \<in> set (trace (snd ?R)). exit_scheme db (mode c) (force c) x = 0"
      using s assms(1) by (auto simp: sound_def calm_def)
    then show ?thesis
      using ne Next by (auto simp: exit_status_def dest: in_set_butlastD)
  next
    case (Exit n)
    then show ?thesis
      using s assms(1) by (auto simp: sound_def halt_def exit_status_def)
  qed
qed

lemma open_device_frame:
  "open_device e c path st = (fd, st1) \<Longrightarrow>
     brightness st1 = brightness st \<and> first_device st1 = first_device st \<and> out st1 = out st"
  by (auto simp: open_device_def Let_def log_def)

lemma read_info_frame:
  "read_info e c fd st = (di, st2) \<Longrightarrow>
     brightness st2 = brightness st \<and> first_device st2 = first_device st"
  unfolding read_info_def Let_def log_def print_def
  by (cases "\<not> silent c \<and> first_device st") auto

lemma warn_frame:
  "brightness (warn db di st) = brightness st \<and> first_device (warn db di st) = first_device st"
  by (simp add: warn_def print_def)

lemma is_usb_monitor_warn:
  "fst (is_usb_monitor e di fd (warn db di st)) = fst (is_usb_monitor e di fd st)"
  by (simp add: is_usb_monitor_def split_beta)

lemma not_monitor_skips:
  assumes o: "open_device e c path st = (fd, st1)" and fd: "\<not> sint fd < 0"
    and r: "read_info e c fd st1 = (di, st2)" and nd: "mode c \<noteq> DETECT"
    and ok: "is_supported db di \<or> force c"
    and nm: "\<not> fst (is_usb_monitor e di fd st2)"
  shows "\<exists>st3. loop_body db e c path st = (Next, st3) \<and>
         last (out st3) = NotUsbMonitor path \<and>
         brightness st3 = brightness st \<and> first_device st3 = first_device st"
proof -
  obtain m st3 where u: "is_usb_monitor e di fd (warn db di st2) = (m, st3)"
    by (cases "is_usb_monitor e di fd (warn db di st2)")
  have m: "\<not> m"
    using nm u is_usb_monitor_warn [of e di fd db st2] by simp
  have lb: "loop_body db e c path st = (Next, print (NotUsbMonitor path) st3)"
  proof (cases rule: loop_body_cases [of e c path st db])
    case (open_failed fd' st1')
    then show ?thesis using o fd by simp
  next
    case (detect fd' st1' di' st2' m' st3')
    then show ?thesis using nd by simp
  next
    case (unsupported fd' st1' di' st2')
    then show ?thesis using o r ok by simp
  next
    case (not_monitor fd' st1' di' st2' st3')
    then show ?thesis using o r u by simp
  next
    case (transact fd' st1' di' st2' st3')
    then show ?thesis using o r u m by simp
  qed
  have b3: "brightness st3 = brightness st2" and f3: "first_device st3 = first_device st2"
    using is_usb_monitor_frame [OF u] warn_frame [of db di st2] by simp_all
  have b2: "brightness st2 = brightness st1" and f2: "first_device st2 = first_device st1"
    using read_info_frame [OF r] by simp_all
  have b1: "brightness st1 = brightness st" and f1: "first_device st1 = first_device st"
    using open_device_frame [OF o] by simp_all
  have "last (out (print (NotUsbMonitor path) st3)) = NotUsbMonitor path"
    by (simp add: print_def)
  moreover have "brightness (print (NotUsbMonitor path) st3) = brightness st"
    using b1 b2 b3 by (simp add: print_def)
  moreover have "first_device (print (NotUsbMonitor path) st3) = first_device st"
    using f1 f2 f3 by (simp add: print_def)
  ultimately show ?thesis using lb by blast
qed

lemma main_last:
  assumes "parse_command_line init_device_database opts params = Inr (c, b, files)"
  shows "trace (snd (main e opts params)) \<noteq> [] \<and>
         fst (main e opts params) =
           exit_scheme init_device_database (mode c) (force c) (last (trace (snd (main e opts params)))) \<and>
         (\<forall>x \<in> set (butlast (trace (snd (main e opts params)))).
            exit_scheme init_device_database (mode c) (force c) x = 0)"
  unfolding main_run [OF assms]
  using run_code [OF trace_start parse_command_line_files [OF assms], of init_device_database e c c b]
    run_files_nonempty [OF parse_command_line_files [OF assms], of init_device_database e c "start c b"]
  by simp

lemma last_if_not_butlast:
  assumes "x \<in> set xs" and "x \<notin> set (butlast xs)"
  shows "x = last xs"
proof -
  have "xs \<noteq> []" using assms(1) by auto
  then have "xs = butlast xs @ [last xs]" by simp
  then have "set xs = set (butlast xs) \<union> {last xs}"
    by (metis list.set(1) list.simps(15) set_append Un_insert_right sup_bot.right_neutral)
  with assms show ?thesis by auto
qed

lemma failed_step_scheme:
  "failed_step ev \<Longrightarrow> exit_scheme db m f ev = 2 \<or> exit_scheme db m f ev = 3"
  by (cases ev) auto

lemma main_fatal_last:
  assumes p: "parse_command_line init_device_database opts params = Inr (c, b, files)"
    and ev: "ev \<in> set (trace (snd (main e opts params)))"
    and s: "exit_scheme init_device_database (mode c) (force c) ev \<noteq> 0"
  shows "ev = last (trace (snd (main e opts params))) \<and>
      ev \<notin> set (butlast (trace (snd (main e opts params)))) \<and>
      fst (main e opts params) = exit_scheme init_device_database (mode c) (force c) ev"
proof -
  let ?S = "exit_scheme init_device_database (mode c) (force c)"
  let ?t = "trace (snd (main e opts params))"
  have ml: "fst (main e opts params) = ?S (last ?t)"
    using main_last [OF p, of e] by blast
  have bl: "\<forall>x \<in> set (butlast ?t). ?S x = 0"
    using main_last [OF p, of e] by blast
  have nb: "ev \<notin> set (butlast ?t)"
    using bl s by blast
  have l: "ev = last ?t"
    using ev nb by (rule last_if_not_butlast)
  show ?thesis using l nb ml by simp
qed

text \<open>
  C3. When the option loop does not exit and the arguments leave no device path,
  the exit status is 1. When there are device paths, the run makes at least one
  driver call, and the exit status is the one the scheme gives to the last call. A
  call with a status other than 0 is the last call of the run and nothing follows it:
  a failed \<^verbatim>\<open>HIDIOCINITREPORT\<close> anywhere in the run gives 1, a failed
  \<^verbatim>\<open>HIDIOCSUSAGE\<close> or \<^verbatim>\<open>HIDIOCGUSAGE\<close> gives 2, the device information of a device
  that is not in the database, outside detection and without \<^verbatim>\<open>--force\<close>, gives 2,
  and a failed \<^verbatim>\<open>HIDIOCSREPORT\<close> or \<^verbatim>\<open>HIDIOCGREPORT\<close> gives 3. A run without such a
  call ends with 0, also when devices could not be opened or were not monitors.
\<close>

theorem exit_code_scheme:
  "(\<forall>c0. parse_options init_device_database opts conf0 = Inr c0 \<and>
        snd (snd (snd (parse_params params (mode c0, amount c0, brightness state0, [])))) = [] \<longrightarrow>
        fst (main e opts params) = 1) \<and>
   (\<forall>c b files. parse_command_line init_device_database opts params = Inr (c, b, files) \<longrightarrow>
        trace (snd (main e opts params)) \<noteq> [] \<and>
        fst (main e opts params) =
          exit_scheme init_device_database (mode c) (force c)
            (last (trace (snd (main e opts params)))) \<and>
        (\<forall>ev \<in> set (trace (snd (main e opts params))).
           exit_scheme init_device_database (mode c) (force c) ev \<noteq> 0 \<longrightarrow>
           ev = last (trace (snd (main e opts params))) \<and>
           ev \<notin> set (butlast (trace (snd (main e opts params))))) \<and>
        (\<forall>fd r. INITREPORT fd r \<in> set (trace (snd (main e opts params))) \<and> sint r < 0 \<longrightarrow>
           fst (main e opts params) = 1) \<and>
        (\<forall>fd u r. SUSAGE fd u r \<in> set (trace (snd (main e opts params))) \<and> sint r < 0 \<longrightarrow>
           fst (main e opts params) = 2) \<and>
        (\<forall>fd u r v. GUSAGE fd u r v \<in> set (trace (snd (main e opts params))) \<and> sint r < 0 \<longrightarrow>
           fst (main e opts params) = 2) \<and>
        (\<forall>fd di. GDEVINFO fd di \<in> set (trace (snd (main e opts params))) \<and>
           mode c \<noteq> DETECT \<and> \<not> force c \<and> \<not> is_supported init_device_database di \<longrightarrow>
           fst (main e opts params) = 2) \<and>
        (\<forall>fd i r. SREPORT fd i r \<in> set (trace (snd (main e opts params))) \<and> sint r < 0 \<longrightarrow>
           fst (main e opts params) = 3) \<and>
        (\<forall>fd i r. GREPORT fd i r \<in> set (trace (snd (main e opts params))) \<and> sint r < 0 \<longrightarrow>
           fst (main e opts params) = 3) \<and>
        ((\<forall>ev \<in> set (trace (snd (main e opts params))).
            exit_scheme init_device_database (mode c) (force c) ev = 0) \<longrightarrow>
           fst (main e opts params) = 0))"
proof -
  have A: "\<forall>c0. parse_options init_device_database opts conf0 = Inr c0 \<and>
        snd (snd (snd (parse_params params (mode c0, amount c0, brightness state0, [])))) = [] \<longrightarrow>
        fst (main e opts params) = 1"
    by (auto simp: main_def parse_command_line_def Let_def split: prod.splits)
  have B: "trace (snd (main e opts params)) \<noteq> [] \<and>
        fst (main e opts params) =
          exit_scheme init_device_database (mode c) (force c)
            (last (trace (snd (main e opts params)))) \<and>
        (\<forall>ev \<in> set (trace (snd (main e opts params))).
           exit_scheme init_device_database (mode c) (force c) ev \<noteq> 0 \<longrightarrow>
           ev = last (trace (snd (main e opts params))) \<and>
           ev \<notin> set (butlast (trace (snd (main e opts params))))) \<and>
        (\<forall>fd r. INITREPORT fd r \<in> set (trace (snd (main e opts params))) \<and> sint r < 0 \<longrightarrow>
           fst (main e opts params) = 1) \<and>
        (\<forall>fd u r. SUSAGE fd u r \<in> set (trace (snd (main e opts params))) \<and> sint r < 0 \<longrightarrow>
           fst (main e opts params) = 2) \<and>
        (\<forall>fd u r v. GUSAGE fd u r v \<in> set (trace (snd (main e opts params))) \<and> sint r < 0 \<longrightarrow>
           fst (main e opts params) = 2) \<and>
        (\<forall>fd di. GDEVINFO fd di \<in> set (trace (snd (main e opts params))) \<and>
           mode c \<noteq> DETECT \<and> \<not> force c \<and> \<not> is_supported init_device_database di \<longrightarrow>
           fst (main e opts params) = 2) \<and>
        (\<forall>fd i r. SREPORT fd i r \<in> set (trace (snd (main e opts params))) \<and> sint r < 0 \<longrightarrow>
           fst (main e opts params) = 3) \<and>
        (\<forall>fd i r. GREPORT fd i r \<in> set (trace (snd (main e opts params))) \<and> sint r < 0 \<longrightarrow>
           fst (main e opts params) = 3) \<and>
        ((\<forall>ev \<in> set (trace (snd (main e opts params))).
            exit_scheme init_device_database (mode c) (force c) ev = 0) \<longrightarrow>
           fst (main e opts params) = 0)"
    if p: "parse_command_line init_device_database opts params = Inr (c, b, files)"
    for c b files
  proof -
    let ?S = "exit_scheme init_device_database (mode c) (force c)"
    let ?t = "trace (snd (main e opts params))"
    let ?n = "fst (main e opts params)"
    note ml = main_last [OF p, of e]
    have fl: "ev = last ?t \<and> ev \<notin> set (butlast ?t) \<and> ?n = ?S ev"
      if "ev \<in> set ?t" and "?S ev \<noteq> 0" for ev
      using main_fatal_last [OF p that] .
    have ne: "?t \<noteq> []" using ml by blast
    have l: "?n = ?S (last ?t)" using ml by blast
    have h1: "\<forall>ev \<in> set ?t. ?S ev \<noteq> 0 \<longrightarrow> ev = last ?t \<and> ev \<notin> set (butlast ?t)"
      using fl by blast
    have h2: "\<forall>fd r. INITREPORT fd r \<in> set ?t \<and> sint r < 0 \<longrightarrow> ?n = 1"
    proof (intro allI impI)
      fix fd r
      assume a: "INITREPORT fd r \<in> set ?t \<and> sint r < 0"
      then have "?S (INITREPORT fd r) \<noteq> 0" by simp
      then have "?n = ?S (INITREPORT fd r)" using fl a by blast
      then show "?n = 1" using a by simp
    qed
    have h3: "\<forall>fd u r. SUSAGE fd u r \<in> set ?t \<and> sint r < 0 \<longrightarrow> ?n = 2"
    proof (intro allI impI)
      fix fd u r
      assume a: "SUSAGE fd u r \<in> set ?t \<and> sint r < 0"
      then have "?S (SUSAGE fd u r) \<noteq> 0" by simp
      then have "?n = ?S (SUSAGE fd u r)" using fl a by blast
      then show "?n = 2" using a by simp
    qed
    have h4: "\<forall>fd u r v. GUSAGE fd u r v \<in> set ?t \<and> sint r < 0 \<longrightarrow> ?n = 2"
    proof (intro allI impI)
      fix fd u r v
      assume a: "GUSAGE fd u r v \<in> set ?t \<and> sint r < 0"
      then have "?S (GUSAGE fd u r v) \<noteq> 0" by simp
      then have "?n = ?S (GUSAGE fd u r v)" using fl a by blast
      then show "?n = 2" using a by simp
    qed
    have h5: "\<forall>fd di. GDEVINFO fd di \<in> set ?t \<and>
           mode c \<noteq> DETECT \<and> \<not> force c \<and> \<not> is_supported init_device_database di \<longrightarrow> ?n = 2"
    proof (intro allI impI)
      fix fd di
      assume a: "GDEVINFO fd di \<in> set ?t \<and>
           mode c \<noteq> DETECT \<and> \<not> force c \<and> \<not> is_supported init_device_database di"
      then have "?S (GDEVINFO fd di) \<noteq> 0" by simp
      then have "?n = ?S (GDEVINFO fd di)" using fl a by blast
      then show "?n = 2" using a by simp
    qed
    have h6: "\<forall>fd i r. SREPORT fd i r \<in> set ?t \<and> sint r < 0 \<longrightarrow> ?n = 3"
    proof (intro allI impI)
      fix fd i r
      assume a: "SREPORT fd i r \<in> set ?t \<and> sint r < 0"
      then have "?S (SREPORT fd i r) \<noteq> 0" by simp
      then have "?n = ?S (SREPORT fd i r)" using fl a by blast
      then show "?n = 3" using a by simp
    qed
    have h7: "\<forall>fd i r. GREPORT fd i r \<in> set ?t \<and> sint r < 0 \<longrightarrow> ?n = 3"
    proof (intro allI impI)
      fix fd i r
      assume a: "GREPORT fd i r \<in> set ?t \<and> sint r < 0"
      then have "?S (GREPORT fd i r) \<noteq> 0" by simp
      then have "?n = ?S (GREPORT fd i r)" using fl a by blast
      then show "?n = 3" using a by simp
    qed
    have h8: "(\<forall>ev \<in> set ?t. ?S ev = 0) \<longrightarrow> ?n = 0"
      using l ne by simp
    from ne l h1 h2 h3 h4 h5 h6 h7 h8 show ?thesis
      by (intro conjI)
  qed
  from A show ?thesis
  proof (rule conjI)
    show "\<forall>c b files. parse_command_line init_device_database opts params = Inr (c, b, files) \<longrightarrow>
        trace (snd (main e opts params)) \<noteq> [] \<and>
        fst (main e opts params) =
          exit_scheme init_device_database (mode c) (force c)
            (last (trace (snd (main e opts params)))) \<and>
        (\<forall>ev \<in> set (trace (snd (main e opts params))).
           exit_scheme init_device_database (mode c) (force c) ev \<noteq> 0 \<longrightarrow>
           ev = last (trace (snd (main e opts params))) \<and>
           ev \<notin> set (butlast (trace (snd (main e opts params))))) \<and>
        (\<forall>fd r. INITREPORT fd r \<in> set (trace (snd (main e opts params))) \<and> sint r < 0 \<longrightarrow>
           fst (main e opts params) = 1) \<and>
        (\<forall>fd u r. SUSAGE fd u r \<in> set (trace (snd (main e opts params))) \<and> sint r < 0 \<longrightarrow>
           fst (main e opts params) = 2) \<and>
        (\<forall>fd u r v. GUSAGE fd u r v \<in> set (trace (snd (main e opts params))) \<and> sint r < 0 \<longrightarrow>
           fst (main e opts params) = 2) \<and>
        (\<forall>fd di. GDEVINFO fd di \<in> set (trace (snd (main e opts params))) \<and>
           mode c \<noteq> DETECT \<and> \<not> force c \<and> \<not> is_supported init_device_database di \<longrightarrow>
           fst (main e opts params) = 2) \<and>
        (\<forall>fd i r. SREPORT fd i r \<in> set (trace (snd (main e opts params))) \<and> sint r < 0 \<longrightarrow>
           fst (main e opts params) = 3) \<and>
        (\<forall>fd i r. GREPORT fd i r \<in> set (trace (snd (main e opts params))) \<and> sint r < 0 \<longrightarrow>
           fst (main e opts params) = 3) \<and>
        ((\<forall>ev \<in> set (trace (snd (main e opts params))).
            exit_scheme init_device_database (mode c) (force c) ev = 0) \<longrightarrow>
           fst (main e opts params) = 0)"
      by (intro allI impI) (rule B)
  qed
qed

theorem exit_code_scheme_witness:
  "fst (main ((display cinema20 0x800001 160)\<lparr>hidiocinitreport := (\<lambda>h fd. - 1)\<rparr>) []
         [''/dev/hiddev0'', ''/dev/hiddev1'']) = 1 \<and>
   fst (main ((display cinema20 0x800001 160)\<lparr>hidiocgusage := (\<lambda>h fd u. (- 1, 0))\<rparr>) []
         [''/dev/hiddev0'', ''/dev/hiddev1'']) = 2 \<and>
   fst (main ((display cinema20 0x800001 160)\<lparr>hidiocgreport := (\<lambda>h fd i. - 1)\<rparr>) []
         [''/dev/hiddev0'', ''/dev/hiddev1'']) = 3 \<and>
   fst (main ((display cinema20 0x800001 160)\<lparr>hidiocinitreport := (\<lambda>h fd. - 1)\<rparr>) ''f'' []) = 1"
proof -
  let ?e1 = "(display cinema20 0x800001 160)\<lparr>hidiocinitreport := (\<lambda>h fd. - 1)\<rparr>"
  let ?e2 = "(display cinema20 0x800001 160)\<lparr>hidiocgusage := (\<lambda>h fd u. (- 1, 0))\<rparr>"
  let ?e3 = "(display cinema20 0x800001 160)\<lparr>hidiocgreport := (\<lambda>h fd i. - 1)\<rparr>"
  let ?u = "\<lparr>hiddev_usage_ref.report_type = 3, report_id = 16, field_index = 0, usage_index = 0,
      usage_code = 0x820010, usage_value = 0\<rparr>"
  let ?i = "\<lparr>hiddev_report_info.report_type = 3, report_id = 16, num_fields = 1\<rparr>"
  let ?p = "[''/dev/hiddev0'', ''/dev/hiddev1'']"
  have p: "parse_command_line init_device_database [] ?p = Inr (conf0, 0, ?p)"
    by code_simp
  have l1: "INITREPORT 3 (- 1) \<in> set (trace (snd (main ?e1 [] ?p)))"
    by code_simp
  have l2: "GUSAGE 3 ?u (- 1) 0 \<in> set (trace (snd (main ?e2 [] ?p)))"
    by code_simp
  have l3: "GREPORT 3 ?i (- 1) \<in> set (trace (snd (main ?e3 [] ?p)))"
    by code_simp
  have q: "parse_options init_device_database ''f'' conf0 = Inr (conf0\<lparr>force := True\<rparr>) \<and>
        snd (snd (snd (parse_params [] (mode (conf0\<lparr>force := True\<rparr>),
           amount (conf0\<lparr>force := True\<rparr>), brightness state0, [])))) = []"
    by code_simp
  have n: "sint (- 1 :: 32 word) < 0" by simp
  note t1 = exit_code_scheme [of "[]" ?p ?e1, THEN conjunct2, THEN spec, THEN spec, THEN spec,
      THEN mp, OF p]
  note t2 = exit_code_scheme [of "[]" ?p ?e2, THEN conjunct2, THEN spec, THEN spec, THEN spec,
      THEN mp, OF p]
  note t3 = exit_code_scheme [of "[]" ?p ?e3, THEN conjunct2, THEN spec, THEN spec, THEN spec,
      THEN mp, OF p]
  have "\<forall>fd r. INITREPORT fd r \<in> set (trace (snd (main ?e1 [] ?p))) \<and> sint r < 0 \<longrightarrow>
      fst (main ?e1 [] ?p) = 1"
    using t1 by (elim conjE)
  then have a: "fst (main ?e1 [] ?p) = 1"
    using l1 n by blast
  have "\<forall>fd u r v. GUSAGE fd u r v \<in> set (trace (snd (main ?e2 [] ?p))) \<and> sint r < 0 \<longrightarrow>
      fst (main ?e2 [] ?p) = 2"
    using t2 by (elim conjE)
  then have b: "fst (main ?e2 [] ?p) = 2"
    using l2 n by blast
  have "\<forall>fd i r. GREPORT fd i r \<in> set (trace (snd (main ?e3 [] ?p))) \<and> sint r < 0 \<longrightarrow>
      fst (main ?e3 [] ?p) = 3"
    using t3 by (elim conjE)
  then have c: "fst (main ?e3 [] ?p) = 3"
    using l3 n by blast
  have d: "fst (main ?e1 ''f'' []) = 1"
    using exit_code_scheme [of "''f''" "[]" ?e1, THEN conjunct1, THEN spec, THEN mp, OF q] .
  show ?thesis using a b c d by blast
qed

lemma open_failure_skips:
  assumes "sint (sys_open e (trace st) path (open_mode c)) < 0"
  shows "loop_body db e c path st =
        (Next, print (Perror path)
             (log (Open path (open_mode c) (sys_open e (trace st) path (open_mode c))) st))"
proof -
  have o: "open_device e c path st = (sys_open e (trace st) path (open_mode c),
      log (Open path (open_mode c) (sys_open e (trace st) path (open_mode c))) st)"
    by (simp add: open_device_def Let_def)
  show ?thesis
    unfolding loop_body_def o using assms by simp
qed

lemma failed_step_last:
  assumes p: "parse_command_line init_device_database opts params = Inr (cf, b, files)"
    and ev: "ev \<in> set (trace (snd (main e opts params)))" and f: "failed_step ev"
  shows "ev = last (trace (snd (main e opts params))) \<and>
      ev \<notin> set (butlast (trace (snd (main e opts params)))) \<and>
      (fst (main e opts params) = 2 \<or> fst (main e opts params) = 3)"
proof -
  let ?S = "exit_scheme init_device_database (mode cf) (force cf)"
  let ?t = "trace (snd (main e opts params))"
  have ml: "fst (main e opts params) = ?S (last ?t)"
    using main_last [OF p, of e] by blast
  have bl: "\<forall>x \<in> set (butlast ?t). ?S x = 0"
    using main_last [OF p, of e] by blast
  have s: "?S ev = 2 \<or> ?S ev = 3"
    using f by (rule failed_step_scheme)
  have nb: "ev \<notin> set (butlast ?t)"
  proof
    assume "ev \<in> set (butlast ?t)"
    then have "?S ev = 0" using bl by blast
    then show False using s by simp
  qed
  have l: "ev = last ?t"
    using ev nb by (rule last_if_not_butlast)
  have "fst (main e opts params) = 2 \<or> fst (main e opts params) = 3"
    using ml s l by simp
  then show ?thesis using l nb by blast
qed

text \<open>
  C8. A device that cannot be opened prints the \<^verbatim>\<open>perror\<close> line and the loop goes on
  with the next path. A supported (or forced) device that is not a monitor prints
  its line and the loop goes on with the next path, with \<^verbatim>\<open>brightness\<close> and
  \<^verbatim>\<open>first_device\<close> as they were. A usage or report call that fails is the last call
  of the whole run, and the exit status is 2 or 3: no later path is opened.
\<close>

theorem failures_recoverable_or_fatal:
  "(sint (sys_open e (trace st) path (open_mode c)) < 0 \<longrightarrow>
      run_files db e c (path # paths) st =
        run_files db e c paths
          (print (Perror path)
             (log (Open path (open_mode c) (sys_open e (trace st) path (open_mode c))) st))) \<and>
   (\<forall>fd st1 di st2.
      open_device e c path st = (fd, st1) \<and> \<not> sint fd < 0 \<and> read_info e c fd st1 = (di, st2) \<and>
      mode c \<noteq> DETECT \<and> (is_supported db di \<or> force c) \<and>
      \<not> fst (is_usb_monitor e di fd st2) \<longrightarrow>
      (\<exists>st3. run_files db e c (path # paths) st = run_files db e c paths st3 \<and>
         last (out st3) = NotUsbMonitor path \<and>
         brightness st3 = brightness st \<and> first_device st3 = first_device st)) \<and>
   (\<forall>cf b files ev.
      parse_command_line init_device_database opts params = Inr (cf, b, files) \<and>
      ev \<in> set (trace (snd (main e opts params))) \<and> failed_step ev \<longrightarrow>
      ev = last (trace (snd (main e opts params))) \<and>
      ev \<notin> set (butlast (trace (snd (main e opts params)))) \<and>
      (fst (main e opts params) = 2 \<or> fst (main e opts params) = 3))"
proof (intro conjI allI impI)
  assume "sint (sys_open e (trace st) path (open_mode c)) < 0"
  then show "run_files db e c (path # paths) st =
        run_files db e c paths
          (print (Perror path)
             (log (Open path (open_mode c) (sys_open e (trace st) path (open_mode c))) st))"
    by (simp add: open_failure_skips)
next
  fix fd st1 di st2
  assume a: "open_device e c path st = (fd, st1) \<and> \<not> sint fd < 0 \<and>
      read_info e c fd st1 = (di, st2) \<and>
      mode c \<noteq> DETECT \<and> (is_supported db di \<or> force c) \<and>
      \<not> fst (is_usb_monitor e di fd st2)"
  have o: "open_device e c path st = (fd, st1)" and fd: "\<not> sint fd < 0"
    and r: "read_info e c fd st1 = (di, st2)" and nd: "mode c \<noteq> DETECT"
    and ok: "is_supported db di \<or> force c" and nm: "\<not> fst (is_usb_monitor e di fd st2)"
    using a by blast+
  obtain st3 where lb: "loop_body db e c path st = (Next, st3)"
    and l3: "last (out st3) = NotUsbMonitor path"
    and b3: "brightness st3 = brightness st" and f3: "first_device st3 = first_device st"
    using not_monitor_skips [OF o fd r nd ok nm] by blast
  have "run_files db e c (path # paths) st = run_files db e c paths st3"
    using lb by simp
  with l3 b3 f3 show "\<exists>st3. run_files db e c (path # paths) st = run_files db e c paths st3 \<and>
         last (out st3) = NotUsbMonitor path \<and>
         brightness st3 = brightness st \<and> first_device st3 = first_device st"
    by blast
next
  fix cf b files ev
  assume a: "parse_command_line init_device_database opts params = Inr (cf, b, files) \<and>
      ev \<in> set (trace (snd (main e opts params))) \<and> failed_step ev"
  have p: "parse_command_line init_device_database opts params = Inr (cf, b, files)"
    and ev: "ev \<in> set (trace (snd (main e opts params)))" and f: "failed_step ev"
    using a by blast+
  note r = failed_step_last [OF p ev f]
  show "ev = last (trace (snd (main e opts params)))" using r by blast
  show "ev \<notin> set (butlast (trace (snd (main e opts params))))" using r by blast
  show "fst (main e opts params) = 2 \<or> fst (main e opts params) = 3" using r by blast
qed

theorem failures_recoverable_or_fatal_witness:
  "run_files init_device_database ((display cinema20 0x800001 160)\<lparr>sys_open := (\<lambda>h p m. - 1)\<rparr>)
      conf0 [''/dev/hiddev0'', ''/dev/hiddev1''] state0 =
   run_files init_device_database ((display cinema20 0x800001 160)\<lparr>sys_open := (\<lambda>h p m. - 1)\<rparr>)
      conf0 [''/dev/hiddev1'']
      (print (Perror ''/dev/hiddev0'') (log (Open ''/dev/hiddev0'' O_RDONLY (- 1)) state0)) \<and>
   fst (main ((display cinema20 0x800001 160)\<lparr>hidiocgreport := (\<lambda>h fd i. - 1)\<rparr>) []
      [''/dev/hiddev0'', ''/dev/hiddev1'']) = 3"
proof -
  let ?e1 = "(display cinema20 0x800001 160)\<lparr>sys_open := (\<lambda>h p m. - 1)\<rparr>"
  let ?e2 = "(display cinema20 0x800001 160)\<lparr>hidiocgreport := (\<lambda>h fd i. - 1)\<rparr>"
  let ?ev = "GREPORT 3 \<lparr>hiddev_report_info.report_type = 3, report_id = 16, num_fields = 1\<rparr> (- 1)"
  have h1: "sint (sys_open ?e1 (trace state0) ''/dev/hiddev0'' (open_mode conf0)) < 0"
    by (simp add: display_def)
  have om: "open_mode conf0 = O_RDONLY" and s1: "sys_open ?e1 (trace state0) ''/dev/hiddev0'' O_RDONLY = - 1"
    by (simp_all add: conf0_def display_def)
  have p: "parse_command_line init_device_database [] [''/dev/hiddev0'', ''/dev/hiddev1''] =
      Inr (conf0, 0, [''/dev/hiddev0'', ''/dev/hiddev1''])"
    by code_simp
  have m: "?ev \<in> set (trace (snd (main ?e2 [] [''/dev/hiddev0'', ''/dev/hiddev1''])))"
    by code_simp
  have f: "failed_step ?ev" by simp
  have n2: "fst (main ?e2 [] [''/dev/hiddev0'', ''/dev/hiddev1'']) \<noteq> 2"
    by code_simp
  have a: "run_files init_device_database ?e1 conf0 [''/dev/hiddev0'', ''/dev/hiddev1''] state0 =
      run_files init_device_database ?e1 conf0 [''/dev/hiddev1'']
        (print (Perror ''/dev/hiddev0'') (log (Open ''/dev/hiddev0'' O_RDONLY (- 1)) state0))"
    using failures_recoverable_or_fatal [of ?e1 state0 "''/dev/hiddev0''" conf0
        init_device_database "[''/dev/hiddev1'']" "[]" "[]"] h1
    by (simp only: om s1) 
  have b: "fst (main ?e2 [] [''/dev/hiddev0'', ''/dev/hiddev1'']) = 3"
    using failures_recoverable_or_fatal [of ?e2 state0 "''/dev/hiddev0''" conf0
        init_device_database "[''/dev/hiddev1'']" "[]" "[''/dev/hiddev0'', ''/dev/hiddev1'']"]
      p m f n2
    by blast
  show ?thesis using a b by blast
qed

subsection \<open>Detection\<close>

lemma parse_options_detect:
  "mode c0 = DETECT \<or> CHR ''d'' \<in> set opts \<Longrightarrow> parse_options db opts c0 = Inr c \<Longrightarrow>
     mode c = DETECT"
proof (induction opts arbitrary: c0)
  case Nil
  then show ?case by simp
next
  case (Cons x xs)
  show ?case
  proof (cases "x = CHR ''b'' \<or> x = CHR ''s'' \<or> x = CHR ''f'' \<or> x = CHR ''d''")
    case False
    then show ?thesis using Cons.prems(2) by (auto split: if_splits)
  next
    case True
    then obtain c1 where c1: "parse_options db (x # xs) c0 = parse_options db xs c1"
      and m1: "mode c1 = DETECT \<or> CHR ''d'' \<in> set xs"
      using Cons.prems(1) by auto
    show ?thesis
      using Cons.IH [OF m1] Cons.prems(2) c1 by simp
  qed
qed

lemma parse_command_line_detect:
  assumes "CHR ''d'' \<in> set opts" and "parse_options db opts conf0 = Inr c0"
  shows "parse_command_line db opts params =
     (if params = [] then Inl (1, [Help])
      else Inr (c0\<lparr>mode := DETECT, amount := amount c0, open_mode := O_RDONLY\<rparr>, brightness state0, params))"
proof -
  have m: "mode c0 = DETECT"
    using parse_options_detect [of conf0 opts db c0] assms by simp
  show ?thesis
    by (simp add: parse_command_line_def assms(2) m parse_params_DETECT)
qed

lemma probe_not_write: "probe_call x \<Longrightarrow> \<not> write_class x"
  by (cases x) auto

lemma read_info_out:
  "read_info e c fd st = (di, st2) \<Longrightarrow>
     \<exists>ls. out st2 = out st @ ls \<and> (\<forall>l \<in> set ls. \<exists>v. l = DriverVersion v)"
  unfolding read_info_def Let_def log_def print_def
  by (cases "\<not> silent c \<and> first_device st") auto

lemma loop_body_detect:
  assumes "mode c = DETECT"
  shows "fst (loop_body db e c path st) = Next \<and>
     (\<exists>evs. trace (snd (loop_body db e c path st)) = trace st @ evs \<and>
        (\<forall>x \<in> set evs. probe_call x)) \<and>
     (\<exists>ls. out (snd (loop_body db e c path st)) = out st @ ls \<and>
        (\<forall>l \<in> set ls. detect_line db l))"
proof (cases rule: loop_body_cases [of e c path st db])
  case (open_failed fd st1)
  have "trace st1 = trace st @ [Open path (open_mode c) fd]" and "out st1 = out st"
    using open_device_trace [OF open_failed(1)] by (simp_all add: log_def)
  then show ?thesis
    using open_failed(3) by (simp add: print_def)
next
  case (detect fd st1 di st2 m st3)
  have t1: "trace st1 = trace st @ [Open path (open_mode c) fd]" and o1: "out st1 = out st"
    using open_device_trace [OF detect(1)] by (simp_all add: log_def)
  obtain v where t2: "trace st2 = trace st1 @ [GVERSION fd v, GDEVINFO fd di]"
    using read_info_trace [OF detect(3)] by blast
  obtain ls where o2: "out st2 = out st1 @ ls" and ls: "\<forall>l \<in> set ls. \<exists>v. l = DriverVersion v"
    using read_info_out [OF detect(3)] by blast
  obtain evs where t3: "st3 = st2\<lparr>trace := trace st2 @ evs\<rparr>"
    and evs: "\<forall>x \<in> set evs. \<exists>k r. x = APPLICATION fd k r"
    using is_usb_monitor_state [of e di fd st2] detect(5) by auto
  have tr: "trace st3 = trace st @ (Open path (open_mode c) fd # GVERSION fd v # GDEVINFO fd di # evs)"
    using t1 t2 t3 by simp
  have pr: "\<forall>x \<in> set (Open path (open_mode c) fd # GVERSION fd v # GDEVINFO fd di # evs). probe_call x"
    using evs by auto
  have o3: "out st3 = out st @ ls"
    using o1 o2 t3 by simp
  have dl: "\<forall>l \<in> set ls. detect_line db l"
    using ls by auto
  show ?thesis
  proof (cases m)
    case True
    have "out (snd (loop_body db e c path st)) = out st @ (ls @ [DetectLine path (is_supported db di) di])"
      using detect(6) True o3 by (simp add: print_def)
    moreover have "\<forall>l \<in> set (ls @ [DetectLine path (is_supported db di) di]). detect_line db l"
      using dl by simp
    moreover have "trace (snd (loop_body db e c path st)) =
        trace st @ (Open path (open_mode c) fd # GVERSION fd v # GDEVINFO fd di # evs)"
      using detect(6) True tr by simp
    ultimately show ?thesis using pr detect(6) by (metis fst_conv)
  next
    case False
    have "out (snd (loop_body db e c path st)) = out st @ ls"
      using detect(6) False o3 by simp
    moreover have "trace (snd (loop_body db e c path st)) =
        trace st @ (Open path (open_mode c) fd # GVERSION fd v # GDEVINFO fd di # evs)"
      using detect(6) False tr by simp
    ultimately show ?thesis using pr dl detect(6) by (metis fst_conv)
  qed
next
  case (unsupported fd st1 di st2)
  then show ?thesis using assms by simp
next
  case (not_monitor fd st1 di st2 st3)
  then show ?thesis using assms by simp
next
  case (transact fd st1 di st2 st3)
  then show ?thesis using assms by simp
qed

lemma run_files_detect:
  assumes "mode c = DETECT"
  shows "fst (run_files db e c files st) = Next \<and>
     (\<exists>evs. trace (snd (run_files db e c files st)) = trace st @ evs \<and>
        (\<forall>x \<in> set evs. probe_call x)) \<and>
     (\<exists>ls. out (snd (run_files db e c files st)) = out st @ ls \<and>
        (\<forall>l \<in> set ls. detect_line db l)) \<and>
     opened (trace (snd (run_files db e c files st))) = opened (trace st) @ files"
proof (induction files arbitrary: st)
  case Nil
  show ?case by simp
next
  case (Cons p ps)
  obtain fl st1 where b: "loop_body db e c p st = (fl, st1)"
    by (cases "loop_body db e c p st")
  have fl: "fl = Next"
    using loop_body_detect [OF assms, of db e p st] b by simp
  obtain evs1 where e1: "trace st1 = trace st @ evs1" and p1: "\<forall>x \<in> set evs1. probe_call x"
    using loop_body_detect [OF assms, of db e p st] b by auto
  obtain ls1 where l1: "out st1 = out st @ ls1" and d1: "\<forall>l \<in> set ls1. detect_line db l"
    using loop_body_detect [OF assms, of db e p st] b by auto
  have op1: "opened (trace st1) = opened (trace st) @ [p]"
    using loop_body_opened [of db e c p st] b by simp
  have r: "run_files db e c (p # ps) st = run_files db e c ps st1"
    using b fl by simp
  obtain evs2 where e2: "trace (snd (run_files db e c ps st1)) = trace st1 @ evs2"
    and p2: "\<forall>x \<in> set evs2. probe_call x"
    using Cons.IH [of st1] by blast
  obtain ls2 where l2: "out (snd (run_files db e c ps st1)) = out st1 @ ls2"
    and d2: "\<forall>l \<in> set ls2. detect_line db l"
    using Cons.IH [of st1] by blast
  have "trace (snd (run_files db e c ps st1)) = trace st @ (evs1 @ evs2) \<and>
        (\<forall>x \<in> set (evs1 @ evs2). probe_call x)"
    using e1 e2 p1 p2 by auto
  then have A: "\<exists>evs. trace (snd (run_files db e c ps st1)) = trace st @ evs \<and>
        (\<forall>x \<in> set evs. probe_call x)"
    by blast
  have "out (snd (run_files db e c ps st1)) = out st @ (ls1 @ ls2) \<and>
        (\<forall>l \<in> set (ls1 @ ls2). detect_line db l)"
    using l1 l2 d1 d2 by auto
  then have B: "\<exists>ls. out (snd (run_files db e c ps st1)) = out st @ ls \<and>
        (\<forall>l \<in> set ls. detect_line db l)"
    by blast
  have C: "opened (trace (snd (run_files db e c ps st1))) = opened (trace st) @ p # ps"
    using Cons.IH [of st1] op1 by simp
  have D: "fst (run_files db e c ps st1) = Next"
    using Cons.IH [of st1] by blast
  show ?case
    unfolding r using A B C D by blast
qed

lemma parse_options_frame:
  "parse_options db opts c0 = Inr c \<Longrightarrow> open_mode c = open_mode c0 \<and> amount c = amount c0"
proof (induction opts arbitrary: c0)
  case Nil
  then show ?case by simp
next
  case (Cons x xs)
  show ?case
  proof (cases "x = CHR ''b'' \<or> x = CHR ''s'' \<or> x = CHR ''f'' \<or> x = CHR ''d''")
    case False
    then show ?thesis using Cons.prems by (auto split: if_splits)
  next
    case True
    then obtain c1 where c1: "parse_options db (x # xs) c0 = parse_options db xs c1"
      and m1: "open_mode c1 = open_mode c0 \<and> amount c1 = amount c0"
      by auto
    have "open_mode c = open_mode c1 \<and> amount c = amount c1"
      using Cons.IH [of c1] Cons.prems c1 by simp
    then show ?thesis using m1 by simp
  qed
qed

lemma detect_conf:
  assumes "CHR ''d'' \<in> set opts" and "parse_options db opts conf0 = Inr c0"
  shows "mode c0 = DETECT \<and>
     c0\<lparr>mode := DETECT, amount := amount c0, open_mode := O_RDONLY\<rparr> = c0"
proof -
  have m: "mode c0 = DETECT"
    using parse_options_detect [of conf0 opts db c0] assms by simp
  have o: "open_mode c0 = O_RDONLY"
    using parse_options_frame [OF assms(2)] by (simp add: conf0_def)
  show ?thesis using m o by (cases c0) simp
qed

lemma detect_run:
  assumes "CHR ''d'' \<in> set opts"
  shows "(\<forall>ev \<in> set (trace (snd (main e opts params))). probe_call ev \<and> \<not> write_class ev) \<and>
     (\<forall>c. parse_options init_device_database opts conf0 = Inr c \<longrightarrow>
        opened (trace (snd (main e opts params))) = params \<and>
        fst (main e opts params) = (if params = [] then 1 else 0) \<and>
        (params \<noteq> [] \<longrightarrow>
           (\<forall>l \<in> set (out (snd (main e opts params))). detect_line init_device_database l)))"
proof (cases "parse_options init_device_database opts conf0")
  case (Inl x)
  then show ?thesis
    by (simp add: main_def parse_command_line_def state0_def split: prod.splits)
next
  case (Inr c0)
  let ?db = init_device_database
  note pcl = parse_command_line_detect [OF assms Inr, of params]
  show ?thesis
  proof (cases "params = []")
    case True
    then show ?thesis
      using pcl Inr by (simp add: main_def state0_def print_def)
  next
    case False
    define c where "c = c0\<lparr>mode := DETECT, amount := amount c0, open_mode := O_RDONLY\<rparr>"
    have p: "parse_command_line ?db opts params = Inr (c, brightness state0, params)"
      using pcl False by (simp add: c_def)
    have mc: "mode c = DETECT" by (simp add: c_def)
    let ?R = "run_files ?db e c params (start c (brightness state0))"
    note m = main_run [OF p, of e]
    note rd = run_files_detect [OF mc, of ?db e params "start c (brightness state0)"]
    have t: "\<forall>x \<in> set (trace (snd ?R)). probe_call x"
      using rd by (auto simp: trace_start)
    have o: "opened (trace (snd ?R)) = params"
      using rd by (simp add: trace_start)
    have f: "exit_status (fst ?R) = 0"
      using rd by (simp add: exit_status_def)
    have s0: "\<forall>l \<in> set (out (start c (brightness state0))). detect_line ?db l"
      by (simp add: start_def state0_def print_def)
    have l: "\<forall>l \<in> set (out (snd ?R)). detect_line ?db l"
      using rd s0 by auto
    show ?thesis
      unfolding m using t o f l False Inr by (auto dest: probe_not_write)
  qed
qed

lemma detect_main_run:
  assumes d: "CHR ''d'' \<in> set opts" and p: "parse_options init_device_database opts conf0 = Inr c"
    and ne: "params \<noteq> []"
  shows "mode c = DETECT \<and>
     snd (main e opts params) =
       snd (run_files init_device_database e c params (start c 0))"
proof -
  note dc = detect_conf [OF d p]
  have "parse_command_line init_device_database opts params = Inr (c, 0, params)"
    using parse_command_line_detect [OF d p, of params] ne dc by (simp add: state0_def)
  then show ?thesis
    using dc by (simp add: main_run)
qed

lemma detect_open_failure:
  assumes "open_device e c path st = (fd, st1)" and "sint fd < 0"
  shows "run_files db e c (path # paths) st = run_files db e c paths (print (Perror path) st1)"
  using assms by (simp add: loop_body_def)

lemma detect_step:
  assumes m: "mode c = DETECT" and o: "open_device e c path st = (fd, st1)"
    and fd: "\<not> sint fd < 0" and r: "read_info e c fd st1 = (di, st2)"
  shows "run_files db e c (path # paths) st =
       run_files db e c paths
         (if fst (is_usb_monitor e di fd st2)
          then print (DetectLine path (is_supported db di) di) (snd (is_usb_monitor e di fd st2))
          else snd (is_usb_monitor e di fd st2)) \<and>
     out (snd (is_usb_monitor e di fd st2)) = out st2"
proof -
  obtain mm st3 where u: "is_usb_monitor e di fd st2 = (mm, st3)"
    by (cases "is_usb_monitor e di fd st2")
  have "loop_body db e c path st =
      (Next, if mm then print (DetectLine path (is_supported db di) di) st3 else st3)"
    using m fd by (simp add: loop_body_def o r u)
  then show ?thesis
    using u is_usb_monitor_frame [OF u] by simp
qed

text \<open>
  C4. With the option \<^verbatim>\<open>-d\<close>, every driver call of the run is an \<^verbatim>\<open>open\<close>, a
  \<^verbatim>\<open>HIDIOCGVERSION\<close>, a \<^verbatim>\<open>HIDIOCGDEVINFO\<close> or a \<^verbatim>\<open>HIDIOCAPPLICATION\<close>: never
  \<^verbatim>\<open>HIDIOCINITREPORT\<close>, \<^verbatim>\<open>HIDIOCSUSAGE\<close> or \<^verbatim>\<open>HIDIOCSREPORT\<close>, whatever the devices
  answer. When the option loop does not exit, every argument is a candidate and is
  opened, in order, the exit status is 0 (1 without arguments), and the run is the
  loop over the arguments in mode \<open>DETECT\<close>. In that loop a candidate that cannot
  be opened prints its \<^verbatim>\<open>perror\<close> line and the loop goes on; a candidate that opens
  prints the line \<open>DetectLine\<close> with its path, the class the database gives it and
  its identity exactly when \<open>is_usb_monitor\<close> is true, prints nothing for the
  monitor check otherwise, and the loop goes on with the next candidate.
\<close>

theorem detect_never_writes:
  assumes "CHR ''d'' \<in> set opts"
  shows "(\<forall>ev \<in> set (trace (snd (main e opts params))). probe_call ev \<and> \<not> write_class ev) \<and>
     (\<forall>c. parse_options init_device_database opts conf0 = Inr c \<longrightarrow>
        opened (trace (snd (main e opts params))) = params \<and>
        fst (main e opts params) = (if params = [] then 1 else 0) \<and>
        (params \<noteq> [] \<longrightarrow>
           (\<forall>l \<in> set (out (snd (main e opts params))). detect_line init_device_database l) \<and>
           mode c = DETECT \<and>
           snd (main e opts params) =
             snd (run_files init_device_database e c params (start c 0)))) \<and>
     (\<forall>fd st1. mode cf = DETECT \<and> open_device e cf path st = (fd, st1) \<and> sint fd < 0 \<longrightarrow>
        run_files db e cf (path # paths) st =
          run_files db e cf paths (print (Perror path) st1)) \<and>
     (\<forall>fd st1 di st2.
        mode cf = DETECT \<and> open_device e cf path st = (fd, st1) \<and> \<not> sint fd < 0 \<and>
        read_info e cf fd st1 = (di, st2) \<longrightarrow>
        run_files db e cf (path # paths) st =
          run_files db e cf paths
            (if fst (is_usb_monitor e di fd st2)
             then print (DetectLine path (is_supported db di) di)
                    (snd (is_usb_monitor e di fd st2))
             else snd (is_usb_monitor e di fd st2)) \<and>
        out (snd (is_usb_monitor e di fd st2)) = out st2)"
proof -
  note dr = detect_run [OF assms, of e params]
  have A: "\<forall>ev \<in> set (trace (snd (main e opts params))). probe_call ev \<and> \<not> write_class ev"
    using dr by (rule conjunct1)
  have B: "opened (trace (snd (main e opts params))) = params \<and>
        fst (main e opts params) = (if params = [] then 1 else 0) \<and>
        (params \<noteq> [] \<longrightarrow>
           (\<forall>l \<in> set (out (snd (main e opts params))). detect_line init_device_database l) \<and>
           mode c = DETECT \<and>
           snd (main e opts params) =
             snd (run_files init_device_database e c params (start c 0)))"
    if p: "parse_options init_device_database opts conf0 = Inr c" for c
  proof -
    have b1: "opened (trace (snd (main e opts params))) = params"
      and b2: "fst (main e opts params) = (if params = [] then 1 else 0)"
      and b3: "params \<noteq> [] \<longrightarrow>
           (\<forall>l \<in> set (out (snd (main e opts params))). detect_line init_device_database l)"
      using dr [THEN conjunct2, THEN spec, THEN mp, OF p] by blast+
    have b4: "params \<noteq> [] \<longrightarrow> mode c = DETECT \<and>
           snd (main e opts params) =
             snd (run_files init_device_database e c params (start c 0))"
      using detect_main_run [OF assms p, of params e] by blast
    show ?thesis using b1 b2 b3 b4 by blast
  qed
  have C: "\<forall>fd st1. mode cf = DETECT \<and> open_device e cf path st = (fd, st1) \<and> sint fd < 0 \<longrightarrow>
        run_files db e cf (path # paths) st =
          run_files db e cf paths (print (Perror path) st1)"
    using detect_open_failure [of e cf path st _ _ db paths] by blast
  have D: "\<forall>fd st1 di st2.
        mode cf = DETECT \<and> open_device e cf path st = (fd, st1) \<and> \<not> sint fd < 0 \<and>
        read_info e cf fd st1 = (di, st2) \<longrightarrow>
        run_files db e cf (path # paths) st =
          run_files db e cf paths
            (if fst (is_usb_monitor e di fd st2)
             then print (DetectLine path (is_supported db di) di)
                    (snd (is_usb_monitor e di fd st2))
             else snd (is_usb_monitor e di fd st2)) \<and>
        out (snd (is_usb_monitor e di fd st2)) = out st2"
  proof (intro allI impI)
    fix fd st1 di st2
    assume a: "mode cf = DETECT \<and> open_device e cf path st = (fd, st1) \<and> \<not> sint fd < 0 \<and>
        read_info e cf fd st1 = (di, st2)"
    then have m: "mode cf = DETECT" and o: "open_device e cf path st = (fd, st1)"
      and fd: "\<not> sint fd < 0" and r: "read_info e cf fd st1 = (di, st2)"
      by blast+
    show "run_files db e cf (path # paths) st =
          run_files db e cf paths
            (if fst (is_usb_monitor e di fd st2)
             then print (DetectLine path (is_supported db di) di)
                    (snd (is_usb_monitor e di fd st2))
             else snd (is_usb_monitor e di fd st2)) \<and>
        out (snd (is_usb_monitor e di fd st2)) = out st2"
      using m o fd r by (rule detect_step)
  qed
  have B': "\<forall>c. parse_options init_device_database opts conf0 = Inr c \<longrightarrow>
        opened (trace (snd (main e opts params))) = params \<and>
        fst (main e opts params) = (if params = [] then 1 else 0) \<and>
        (params \<noteq> [] \<longrightarrow>
           (\<forall>l \<in> set (out (snd (main e opts params))). detect_line init_device_database l) \<and>
           mode c = DETECT \<and>
           snd (main e opts params) =
             snd (run_files init_device_database e c params (start c 0)))"
    by (intro allI impI) (rule B)
  from A B' C D show ?thesis by (intro conjI)
qed

theorem detect_never_writes_witness:
  "opened (trace (snd (main (display unknown_device 0x800001 160) ''sd''
      [''/dev/hiddev0'', ''7'', ''/dev/hiddev1'']))) = [''/dev/hiddev0'', ''7'', ''/dev/hiddev1''] \<and>
   fst (main (display unknown_device 0x800001 160) ''sd''
      [''/dev/hiddev0'', ''7'', ''/dev/hiddev1'']) = 0 \<and>
   out (snd (run_files init_device_database (display cinema20 0x800001 160)
      (conf0\<lparr>mode := DETECT\<rparr>) [''/dev/hiddev0''] state0)) =
     [DriverVersion 0x10004, DetectLine ''/dev/hiddev0'' True cinema20] \<and>
   out (snd (run_files init_device_database (display other_device 0x0c0001 160)
      (conf0\<lparr>mode := DETECT\<rparr>) [''/dev/hiddev0''] state0)) = [DriverVersion 0x10004]"
proof -
  let ?c = "conf0\<lparr>mode := DETECT\<rparr>"
  let ?e1 = "display cinema20 0x800001 160"
  let ?e2 = "display other_device 0x0c0001 160"
  let ?p = "''/dev/hiddev0''"
  let ?st1 = "log (Open ?p O_RDONLY 3) state0"
  have d: "CHR ''d'' \<in> set ''sd''" by simp
  have p: "parse_options init_device_database ''sd'' conf0 =
      Inr (conf0\<lparr>silent := True, mode := DETECT\<rparr>)"
    by code_simp
  have a: "opened (trace (snd (main (display unknown_device 0x800001 160) ''sd''
      [''/dev/hiddev0'', ''7'', ''/dev/hiddev1'']))) = [''/dev/hiddev0'', ''7'', ''/dev/hiddev1''] \<and>
   fst (main (display unknown_device 0x800001 160) ''sd''
      [''/dev/hiddev0'', ''7'', ''/dev/hiddev1'']) = 0"
    using detect_never_writes [OF d, of "display unknown_device 0x800001 160"
        "[''/dev/hiddev0'', ''7'', ''/dev/hiddev1'']" ?c ?p state0 init_device_database "[]",
        THEN conjunct2, THEN conjunct1, THEN spec, THEN mp, OF p]
    by (elim conjE) simp
  have m: "mode ?c = DETECT" by simp
  have fd: "\<not> sint (3 :: 32 word) < 0" by simp
  have o1: "open_device ?e1 ?c ?p state0 = (3, ?st1)"
    by (simp add: open_device_def display_def conf0_def state0_def)
  have o2: "open_device ?e2 ?c ?p state0 = (3, ?st1)"
    by (simp add: open_device_def display_def conf0_def state0_def)
  obtain st2 where r1: "read_info ?e1 ?c 3 ?st1 = (cinema20, st2)"
    by (simp add: read_info_def display_def Let_def)
  obtain st2' where r2: "read_info ?e2 ?c 3 ?st1 = (other_device, st2')"
    by (simp add: read_info_def display_def Let_def)
  note t1 = detect_never_writes [OF d, of ?e1 "[]" ?c ?p state0 init_device_database "[]",
      THEN conjunct2, THEN conjunct2, THEN conjunct2, THEN spec, THEN spec, THEN spec, THEN spec,
      THEN mp, THEN conjunct1]
  note t2 = detect_never_writes [OF d, of ?e2 "[]" ?c ?p state0 init_device_database "[]",
      THEN conjunct2, THEN conjunct2, THEN conjunct2, THEN spec, THEN spec, THEN spec, THEN spec,
      THEN mp, THEN conjunct1]
  have u1: "run_files init_device_database ?e1 ?c [?p] state0 =
      run_files init_device_database ?e1 ?c []
        (if fst (is_usb_monitor ?e1 cinema20 3 st2)
         then print (DetectLine ?p (is_supported init_device_database cinema20) cinema20)
                (snd (is_usb_monitor ?e1 cinema20 3 st2))
         else snd (is_usb_monitor ?e1 cinema20 3 st2))"
    using m o1 fd r1 by (intro t1) blast
  have u2: "run_files init_device_database ?e2 ?c [?p] state0 =
      run_files init_device_database ?e2 ?c []
        (if fst (is_usb_monitor ?e2 other_device 3 st2')
         then print (DetectLine ?p (is_supported init_device_database other_device) other_device)
                (snd (is_usb_monitor ?e2 other_device 3 st2'))
         else snd (is_usb_monitor ?e2 other_device 3 st2'))"
    using m o2 fd r2 by (intro t2) blast
  have b: "out (snd (run_files init_device_database ?e1 ?c [?p] state0)) =
     [DriverVersion 0x10004, DetectLine ?p True cinema20]"
    by code_simp
  have c: "out (snd (run_files init_device_database ?e2 ?c [?p] state0)) = [DriverVersion 0x10004]"
    by code_simp
  show ?thesis using a b c u1 u2 by blast
qed

subsection \<open>Unsupported devices\<close>

lemma agree_refl: "agree st st"
  by (simp add: agree_def)

lemma agree_print: "agree st st' \<Longrightarrow> agree (print l st) st'"
  by (simp add: agree_def print_def)

lemma agree_print2: "agree st st' \<Longrightarrow> agree st (print l st')"
  by (simp add: agree_def print_def)

lemma agree_warn: "agree st st' \<Longrightarrow> agree (warn db di st) (warn db' di st')"
  by (simp add: agree_def warn_def print_def)

lemma agree_open:
  assumes "agree st st'"
  shows "fst (open_device e c path st) = fst (open_device e c path st') \<and>
         agree (snd (open_device e c path st)) (snd (open_device e c path st'))"
  using assms by (simp add: agree_def open_device_def Let_def log_def)

lemma agree_read_info:
  assumes "agree st st'"
  shows "fst (read_info e c fd st) = fst (read_info e c fd st') \<and>
         agree (snd (read_info e c fd st)) (snd (read_info e c fd st'))"
  using assms by (simp add: agree_def read_info_def Let_def log_def print_def)

lemma agree_is_usb_monitor:
  assumes "agree st st'"
  shows "fst (is_usb_monitor e di fd st) = fst (is_usb_monitor e di fd st') \<and>
         agree (snd (is_usb_monitor e di fd st)) (snd (is_usb_monitor e di fd st'))"
  using assms by (simp add: agree_def is_usb_monitor_def split_beta)

lemma agree_set_usage_report:
  assumes "agree st st'"
  shows "fst (set_usage_report e fd u ri st) = fst (set_usage_report e fd u ri st') \<and>
         agree (snd (set_usage_report e fd u ri st)) (snd (set_usage_report e fd u ri st'))"
  using assms by (simp add: agree_def set_usage_report_def Let_def log_def print_def)

lemma agree_get_usage_report:
  assumes "agree st st'"
  shows "fst (get_usage_report e fd u ri st) = fst (get_usage_report e fd u ri st') \<and>
         fst (snd (get_usage_report e fd u ri st)) = fst (snd (get_usage_report e fd u ri st')) \<and>
         agree (snd (snd (get_usage_report e fd u ri st))) (snd (snd (get_usage_report e fd u ri st')))"
  using assms
  by (simp add: agree_def get_usage_report_def Let_def log_def print_def split_beta)

lemma agree_case:
  assumes "agree_result r r'" and "\<And>s s'. agree s s' \<Longrightarrow> agree_result (k s) (k' s')"
  shows "agree_result (case r of (Exit n, s) \<Rightarrow> (Exit n, s) | (Next, s) \<Rightarrow> k s)
           (case r' of (Exit n, s) \<Rightarrow> (Exit n, s) | (Next, s) \<Rightarrow> k' s)"
proof -
  obtain fl s where r: "r = (fl, s)" by (cases r)
  obtain fl' s' where r': "r' = (fl', s')" by (cases r')
  have e: "fl = fl'" and a: "agree s s'"
    using assms(1) by (simp_all add: agree_result_def r r')
  show ?thesis
  proof (cases fl)
    case Next
    then show ?thesis using e assms(2) [OF a] by (simp add: r r')
  next
    case (Exit n)
    then show ?thesis using e a by (simp add: r r' agree_result_def)
  qed
qed

lemma agree_case3:
  assumes "fst r = fst r'" and "fst (snd r) = fst (snd r')"
    and "agree (snd (snd r)) (snd (snd r'))"
    and "\<And>u s s'. agree s s' \<Longrightarrow> agree_result (k u s) (k' u s')"
  shows "agree_result (case r of (Exit n, u, s) \<Rightarrow> (Exit n, s) | (Next, u, s) \<Rightarrow> k u s)
           (case r' of (Exit n, u, s) \<Rightarrow> (Exit n, s) | (Next, u, s) \<Rightarrow> k' u s)"
proof -
  obtain fl u s where r: "r = (fl, u, s)" by (cases r)
  obtain fl' u' s' where r': "r' = (fl', u', s')" by (cases r')
  have e: "fl = fl'" and u: "u = u'" and a: "agree s s'"
    using assms(1,2,3) by (simp_all add: r r')
  show ?thesis
  proof (cases fl)
    case Next
    then show ?thesis using e u assms(4) [OF a] by (simp add: r r')
  next
    case (Exit n)
    then show ?thesis using e a by (simp add: r r' agree_result_def)
  qed
qed

lemma agree_close:
  "agree s s' \<Longrightarrow> agree_result (close_device fd s) (close_device fd s')"
  by (simp add: agree_result_def agree_def close_device_def log_def)

lemma agree_print_brightness:
  "agree s s' \<Longrightarrow> agree (print_brightness c path u s) (print_brightness c path u s')"
  by (simp add: agree_def print_brightness_def print_def)

lemma agree_brightness:
  "agree s s' \<Longrightarrow> agree (s\<lparr>brightness := b\<rparr>) (s'\<lparr>brightness := b\<rparr>)"
  by (simp add: agree_def)

lemma agree_log: "agree s s' \<Longrightarrow> agree (log ev s) (log ev s')"
  by (simp add: agree_def log_def)

lemma agree_set_result:
  "agree s s' \<Longrightarrow> agree_result (set_usage_report e fd u ri s) (set_usage_report e fd u ri s')"
  using agree_set_usage_report by (simp add: agree_result_def)

lemma agree_transaction:
  assumes "agree st st'"
  shows "agree_result (transaction e c path fd st) (transaction e c path fd st')"
proof -
  have t: "trace st' = trace st" and b: "brightness st' = brightness st"
    using assms by (simp_all add: agree_def)
  let ?r = "hidiocinitreport e (trace st) fd"
  have a1: "agree (log (INITREPORT fd ?r) st) (log (INITREPORT fd ?r) st')"
    using assms by (rule agree_log)
  have b1: "brightness (log (INITREPORT fd ?r) st') = brightness (log (INITREPORT fd ?r) st)"
    using b by (simp add: log_def)
  show ?thesis
  proof (cases "sint ?r < 0")
    case True
    then show ?thesis
      using a1 by (simp add: transaction_def Let_def t agree_result_def agree_print agree_print2)
  next
    case False
    show ?thesis
      unfolding transaction_def Let_def t b1
      using False a1
      by (auto intro!: agree_case agree_case3 agree_close agree_set_result
            agree_print_brightness agree_brightness
          simp: agree_get_usage_report)
  qed
qed


lemma agree_loop_body:
  assumes a: "agree st st'" and f: "force c" and nd: "mode c \<noteq> DETECT"
  shows "agree_result (loop_body db e c path st) (loop_body db' e c path st')"
proof -
  obtain fd st1 where o: "open_device e c path st = (fd, st1)"
    by (cases "open_device e c path st")
  obtain fd' st1' where o': "open_device e c path st' = (fd', st1')"
    by (cases "open_device e c path st'")
  have fd: "fd' = fd" and a1: "agree st1 st1'"
    using agree_open [OF a, of e c path] o o' by simp_all
  show ?thesis
  proof (cases "sint fd < 0")
    case True
    then show ?thesis
      using a1 by (simp add: loop_body_def o o' fd agree_result_def agree_print agree_print2)
  next
    case False
    obtain di st2 where r: "read_info e c fd st1 = (di, st2)"
      by (cases "read_info e c fd st1")
    obtain di' st2' where r': "read_info e c fd st1' = (di', st2')"
      by (cases "read_info e c fd st1'")
    have di: "di' = di" and a2: "agree st2 st2'"
      using agree_read_info [OF a1, of e c fd] r r' by simp_all
    have aw: "agree (warn db di st2) (warn db' di st2')"
      using a2 by (rule agree_warn)
    obtain m st3 where u: "is_usb_monitor e di fd (warn db di st2) = (m, st3)"
      by (cases "is_usb_monitor e di fd (warn db di st2)")
    obtain m' st3' where u': "is_usb_monitor e di fd (warn db' di st2') = (m', st3')"
      by (cases "is_usb_monitor e di fd (warn db' di st2')")
    have m: "m' = m" and a3: "agree st3 st3'"
      using agree_is_usb_monitor [OF aw, of e di fd] u u' by simp_all
    have lb: "loop_body db e c path st =
        (if \<not> m then (Next, print (NotUsbMonitor path) st3) else transaction e c path fd st3)"
      using False nd f u by (simp add: loop_body_def o r warn_def Let_def)
    have lb': "loop_body db' e c path st' =
        (if \<not> m then (Next, print (NotUsbMonitor path) st3') else transaction e c path fd st3')"
      using False nd f u' by (simp add: loop_body_def o' r' fd di m warn_def Let_def)
    show ?thesis
      unfolding lb lb'
      using a3 agree_transaction [OF a3, of e c path fd]
      by (simp add: agree_result_def agree_print agree_print2)
  qed
qed

lemma agree_run_files:
  assumes f: "force c" and nd: "mode c \<noteq> DETECT"
  shows "agree st st' \<Longrightarrow> agree_result (run_files db e c files st) (run_files db' e c files st')"
proof (induction files arbitrary: st st')
  case Nil
  then show ?case by (simp add: agree_result_def)
next
  case (Cons p ps)
  have "agree_result (loop_body db e c p st) (loop_body db' e c p st')"
    using Cons.prems f nd by (rule agree_loop_body)
  then show ?case
    unfolding run_files.simps using Cons.IH by (rule agree_case)
qed

lemma unsupported_last:
  assumes p: "parse_command_line init_device_database opts params = Inr (c, b, files)"
    and nd: "mode c \<noteq> DETECT" and nf: "\<not> force c"
    and ev: "GDEVINFO fd di \<in> set (trace (snd (main e opts params)))"
    and ns: "\<not> is_supported init_device_database di"
  shows "fst (main e opts params) = 2 \<and>
      last (trace (snd (main e opts params))) = GDEVINFO fd di \<and>
      GDEVINFO fd di \<notin> set (butlast (trace (snd (main e opts params))))"
proof -
  let ?S = "exit_scheme init_device_database (mode c) (force c)"
  let ?t = "trace (snd (main e opts params))"
  have ml: "fst (main e opts params) = ?S (last ?t)"
    using main_last [OF p, of e] by blast
  have bl: "\<forall>x \<in> set (butlast ?t). ?S x = 0"
    using main_last [OF p, of e] by blast
  have s: "?S (GDEVINFO fd di) = 2"
    using nd nf ns by simp
  have nb: "GDEVINFO fd di \<notin> set (butlast ?t)"
  proof
    assume "GDEVINFO fd di \<in> set (butlast ?t)"
    then have "?S (GDEVINFO fd di) = 0" using bl by blast
    then show False using s by simp
  qed
  have l: "GDEVINFO fd di = last ?t"
    using ev nb by (rule last_if_not_butlast)
  have "fst (main e opts params) = 2"
    using ml s l by simp
  then show ?thesis using l nb by simp
qed

lemma open_device_force: "open_device e (c\<lparr>force := f\<rparr>) path st = open_device e c path st"
  by (simp add: open_device_def)

lemma read_info_force: "read_info e (c\<lparr>force := f\<rparr>) fd st = read_info e c fd st"
  by (simp add: read_info_def)

lemma print_brightness_force:
  "print_brightness (c\<lparr>force := f\<rparr>) path u st = print_brightness c path u st"
  by (simp add: print_brightness_def)

lemma transaction_force: "transaction e (c\<lparr>force := f\<rparr>) path fd st = transaction e c path fd st"
  unfolding transaction_def Let_def print_brightness_force
  by (simp cong: prod.case_cong flow.case_cong if_cong)

lemma read_info_devinfo:
  "read_info e c fd st = (di, st2) \<Longrightarrow> \<exists>h. di = hidiocgdevinfo e h fd"
  by (auto simp: read_info_def Let_def)

lemma forced_step:
  assumes nd: "mode c \<noteq> DETECT" and ok: "force c \<or> is_supported db di"
    and o: "open_device e c path st = (fd, st1)" and fd: "\<not> sint fd < 0"
    and r: "read_info e c fd st1 = (di, st2)"
  shows "fst (is_usb_monitor e di fd (warn db di st2)) = fst (is_usb_monitor e di fd st2) \<and>
     run_files db e c (path # paths) st =
       (if fst (is_usb_monitor e di fd st2)
        then (case transaction e c path fd (snd (is_usb_monitor e di fd (warn db di st2))) of
                (Exit n, s) \<Rightarrow> (Exit n, s)
              | (Next, s) \<Rightarrow> run_files db e c paths s)
        else run_files db e c paths
               (print (NotUsbMonitor path) (snd (is_usb_monitor e di fd (warn db di st2)))))"
proof -
  obtain m st3 where u: "is_usb_monitor e di fd (warn db di st2) = (m, st3)"
    by (cases "is_usb_monitor e di fd (warn db di st2)")
  have w: "fst (is_usb_monitor e di fd (warn db di st2)) = fst (is_usb_monitor e di fd st2)"
    by (rule is_usb_monitor_warn)
  have lb: "loop_body db e c path st =
      (if \<not> m then (Next, print (NotUsbMonitor path) st3) else transaction e c path fd st3)"
    using fd nd ok u by (auto simp add: loop_body_def o r warn_def Let_def)
  have m: "m = fst (is_usb_monitor e di fd st2)"
    using w u by simp
  show ?thesis
    using w lb u m by (simp split: prod.splits flow.splits)
qed

lemma agree_loop_body_supported:
  assumes a: "agree st st'" and f: "force c" and nd: "mode c \<noteq> DETECT"
    and s: "\<forall>h fd. is_supported db' (hidiocgdevinfo e h fd)"
  shows "agree_result (loop_body db e c path st) (loop_body db' e (c\<lparr>force := False\<rparr>) path st')"
proof -
  let ?c = "c\<lparr>force := False\<rparr>"
  obtain fd st1 where o: "open_device e c path st = (fd, st1)"
    by (cases "open_device e c path st")
  obtain fd' st1' where o': "open_device e c path st' = (fd', st1')"
    by (cases "open_device e c path st'")
  have fd: "fd' = fd" and a1: "agree st1 st1'"
    using agree_open [OF a, of e c path] o o' by simp_all
  have oc: "open_device e ?c path st' = (fd, st1')"
    using o' fd by (simp add: open_device_force)
  show ?thesis
  proof (cases "sint fd < 0")
    case True
    then show ?thesis
      using a1 by (simp add: loop_body_def o oc agree_result_def agree_print agree_print2)
  next
    case False
    obtain di st2 where r: "read_info e c fd st1 = (di, st2)"
      by (cases "read_info e c fd st1")
    obtain di' st2' where r': "read_info e c fd st1' = (di', st2')"
      by (cases "read_info e c fd st1'")
    have di: "di' = di" and a2: "agree st2 st2'"
      using agree_read_info [OF a1, of e c fd] r r' by simp_all
    have rc: "read_info e ?c fd st1' = (di, st2')"
      using r' di by (simp add: read_info_force)
    have sup: "is_supported db' di"
      using read_info_devinfo [OF r] s by blast
    have aw: "agree (warn db di st2) (warn db' di st2')"
      using a2 by (rule agree_warn)
    obtain m st3 where u: "is_usb_monitor e di fd (warn db di st2) = (m, st3)"
      by (cases "is_usb_monitor e di fd (warn db di st2)")
    obtain m' st3' where u': "is_usb_monitor e di fd (warn db' di st2') = (m', st3')"
      by (cases "is_usb_monitor e di fd (warn db' di st2')")
    have m: "m' = m" and a3: "agree st3 st3'"
      using agree_is_usb_monitor [OF aw, of e di fd] u u' by simp_all
    have lb: "loop_body db e c path st =
        (if \<not> m then (Next, print (NotUsbMonitor path) st3) else transaction e c path fd st3)"
      using False nd f u by (simp add: loop_body_def o r warn_def Let_def)
    have lb': "loop_body db' e ?c path st' =
        (if \<not> m then (Next, print (NotUsbMonitor path) st3') else transaction e c path fd st3')"
      using False nd sup u' by (simp add: loop_body_def oc rc m warn_def Let_def transaction_force)
    show ?thesis
      unfolding lb lb'
      using a3 agree_transaction [OF a3, of e c path fd]
      by (simp add: agree_result_def agree_print agree_print2)
  qed
qed

lemma agree_run_files_supported:
  assumes f: "force c" and nd: "mode c \<noteq> DETECT"
    and s: "\<forall>h fd. is_supported db' (hidiocgdevinfo e h fd)"
  shows "agree st st' \<Longrightarrow>
     agree_result (run_files db e c files st) (run_files db' e (c\<lparr>force := False\<rparr>) files st')"
proof (induction files arbitrary: st st')
  case Nil
  then show ?case by (simp add: agree_result_def)
next
  case (Cons p ps)
  have "agree_result (loop_body db e c p st) (loop_body db' e (c\<lparr>force := False\<rparr>) p st')"
    using Cons.prems f nd s by (rule agree_loop_body_supported)
  then show ?case
    unfolding run_files.simps using Cons.IH by (rule agree_case)
qed


text \<open>
  C5. Outside detection and without \<^verbatim>\<open>--force\<close>, the device information of a
  device that is not in the database is the last driver call of the whole run, and
  the exit status is 2: no application query, no transaction call and no later
  candidate follows. With \<^verbatim>\<open>--force\<close>, or for a device of the database, a device
  that opens goes to the monitor check, whose answer the warning does not change:
  a monitor goes to the transaction, and the loop goes on after it unless it exits;
  any other device prints its line and the loop goes on. A forced run makes the same
  calls, leaves the same brightness and ends the same way whatever the database is,
  and it is the run without \<^verbatim>\<open>--force\<close> of a database that has every device the
  driver reports.
\<close>

theorem unsupported_needs_force:
  "(\<forall>c b files fd di.
      parse_command_line init_device_database opts params = Inr (c, b, files) \<and>
      mode c \<noteq> DETECT \<and> \<not> force c \<and>
      GDEVINFO fd di \<in> set (trace (snd (main e opts params))) \<and>
      \<not> is_supported init_device_database di \<longrightarrow>
      fst (main e opts params) = 2 \<and>
      last (trace (snd (main e opts params))) = GDEVINFO fd di \<and>
      GDEVINFO fd di \<notin> set (butlast (trace (snd (main e opts params))))) \<and>
   (force cf \<and> mode cf \<noteq> DETECT \<longrightarrow>
      fst (run_files db e cf paths st) = fst (run_files db' e cf paths st) \<and>
      trace (snd (run_files db e cf paths st)) = trace (snd (run_files db' e cf paths st)) \<and>
      brightness (snd (run_files db e cf paths st)) =
        brightness (snd (run_files db' e cf paths st))) \<and>
   (\<forall>fd st1 di st2.
      mode cf \<noteq> DETECT \<and> (force cf \<or> is_supported db di) \<and>
      open_device e cf path st = (fd, st1) \<and> \<not> sint fd < 0 \<and>
      read_info e cf fd st1 = (di, st2) \<longrightarrow>
      fst (is_usb_monitor e di fd (warn db di st2)) = fst (is_usb_monitor e di fd st2) \<and>
      run_files db e cf (path # paths) st =
        (if fst (is_usb_monitor e di fd st2)
         then (case transaction e cf path fd (snd (is_usb_monitor e di fd (warn db di st2))) of
                 (Exit n, s) \<Rightarrow> (Exit n, s)
               | (Next, s) \<Rightarrow> run_files db e cf paths s)
         else run_files db e cf paths
                (print (NotUsbMonitor path) (snd (is_usb_monitor e di fd (warn db di st2)))))) \<and>
   (force cf \<and> mode cf \<noteq> DETECT \<and> (\<forall>h fd. is_supported db' (hidiocgdevinfo e h fd)) \<longrightarrow>
      fst (run_files db e cf paths st) = fst (run_files db' e (cf\<lparr>force := False\<rparr>) paths st) \<and>
      trace (snd (run_files db e cf paths st)) =
        trace (snd (run_files db' e (cf\<lparr>force := False\<rparr>) paths st)) \<and>
      brightness (snd (run_files db e cf paths st)) =
        brightness (snd (run_files db' e (cf\<lparr>force := False\<rparr>) paths st)) \<and>
      first_device (snd (run_files db e cf paths st)) =
        first_device (snd (run_files db' e (cf\<lparr>force := False\<rparr>) paths st)))"
proof -
  have A: "\<forall>c b files fd di.
      parse_command_line init_device_database opts params = Inr (c, b, files) \<and>
      mode c \<noteq> DETECT \<and> \<not> force c \<and>
      GDEVINFO fd di \<in> set (trace (snd (main e opts params))) \<and>
      \<not> is_supported init_device_database di \<longrightarrow>
      fst (main e opts params) = 2 \<and>
      last (trace (snd (main e opts params))) = GDEVINFO fd di \<and>
      GDEVINFO fd di \<notin> set (butlast (trace (snd (main e opts params))))"
  proof (intro allI impI)
    fix c b files fd di
    assume a: "parse_command_line init_device_database opts params = Inr (c, b, files) \<and>
      mode c \<noteq> DETECT \<and> \<not> force c \<and>
      GDEVINFO fd di \<in> set (trace (snd (main e opts params))) \<and>
      \<not> is_supported init_device_database di"
    have p: "parse_command_line init_device_database opts params = Inr (c, b, files)"
      and nd: "mode c \<noteq> DETECT" and nf: "\<not> force c"
      and ev: "GDEVINFO fd di \<in> set (trace (snd (main e opts params)))"
      and ns: "\<not> is_supported init_device_database di"
      using a by blast+
    show "fst (main e opts params) = 2 \<and>
      last (trace (snd (main e opts params))) = GDEVINFO fd di \<and>
      GDEVINFO fd di \<notin> set (butlast (trace (snd (main e opts params))))"
      using p nd nf ev ns by (rule unsupported_last)
  qed
  have B: "force cf \<and> mode cf \<noteq> DETECT \<longrightarrow>
      fst (run_files db e cf paths st) = fst (run_files db' e cf paths st) \<and>
      trace (snd (run_files db e cf paths st)) = trace (snd (run_files db' e cf paths st)) \<and>
      brightness (snd (run_files db e cf paths st)) =
        brightness (snd (run_files db' e cf paths st))"
  proof
    assume a: "force cf \<and> mode cf \<noteq> DETECT"
    then have f: "force cf" and nd: "mode cf \<noteq> DETECT" by blast+
    have r: "agree_result (run_files db e cf paths st) (run_files db' e cf paths st)"
      using f nd agree_refl by (rule agree_run_files)
    then show "fst (run_files db e cf paths st) = fst (run_files db' e cf paths st) \<and>
      trace (snd (run_files db e cf paths st)) = trace (snd (run_files db' e cf paths st)) \<and>
      brightness (snd (run_files db e cf paths st)) =
        brightness (snd (run_files db' e cf paths st))"
      by (simp add: agree_result_def agree_def)
  qed
  have C: "\<forall>fd st1 di st2.
      mode cf \<noteq> DETECT \<and> (force cf \<or> is_supported db di) \<and>
      open_device e cf path st = (fd, st1) \<and> \<not> sint fd < 0 \<and>
      read_info e cf fd st1 = (di, st2) \<longrightarrow>
      fst (is_usb_monitor e di fd (warn db di st2)) = fst (is_usb_monitor e di fd st2) \<and>
      run_files db e cf (path # paths) st =
        (if fst (is_usb_monitor e di fd st2)
         then (case transaction e cf path fd (snd (is_usb_monitor e di fd (warn db di st2))) of
                 (Exit n, s) \<Rightarrow> (Exit n, s)
               | (Next, s) \<Rightarrow> run_files db e cf paths s)
         else run_files db e cf paths
                (print (NotUsbMonitor path) (snd (is_usb_monitor e di fd (warn db di st2)))))"
  proof (intro allI impI)
    fix fd st1 di st2
    assume a: "mode cf \<noteq> DETECT \<and> (force cf \<or> is_supported db di) \<and>
      open_device e cf path st = (fd, st1) \<and> \<not> sint fd < 0 \<and>
      read_info e cf fd st1 = (di, st2)"
    then have nd: "mode cf \<noteq> DETECT" and ok: "force cf \<or> is_supported db di"
      and o: "open_device e cf path st = (fd, st1)" and fd: "\<not> sint fd < 0"
      and r: "read_info e cf fd st1 = (di, st2)"
      by blast+
    show "fst (is_usb_monitor e di fd (warn db di st2)) = fst (is_usb_monitor e di fd st2) \<and>
      run_files db e cf (path # paths) st =
        (if fst (is_usb_monitor e di fd st2)
         then (case transaction e cf path fd (snd (is_usb_monitor e di fd (warn db di st2))) of
                 (Exit n, s) \<Rightarrow> (Exit n, s)
               | (Next, s) \<Rightarrow> run_files db e cf paths s)
         else run_files db e cf paths
                (print (NotUsbMonitor path) (snd (is_usb_monitor e di fd (warn db di st2)))))"
      using nd ok o fd r by (rule forced_step)
  qed
  have D: "force cf \<and> mode cf \<noteq> DETECT \<and> (\<forall>h fd. is_supported db' (hidiocgdevinfo e h fd)) \<longrightarrow>
      fst (run_files db e cf paths st) = fst (run_files db' e (cf\<lparr>force := False\<rparr>) paths st) \<and>
      trace (snd (run_files db e cf paths st)) =
        trace (snd (run_files db' e (cf\<lparr>force := False\<rparr>) paths st)) \<and>
      brightness (snd (run_files db e cf paths st)) =
        brightness (snd (run_files db' e (cf\<lparr>force := False\<rparr>) paths st)) \<and>
      first_device (snd (run_files db e cf paths st)) =
        first_device (snd (run_files db' e (cf\<lparr>force := False\<rparr>) paths st))"
  proof
    assume a: "force cf \<and> mode cf \<noteq> DETECT \<and> (\<forall>h fd. is_supported db' (hidiocgdevinfo e h fd))"
    then have f: "force cf" and nd: "mode cf \<noteq> DETECT"
      and s: "\<forall>h fd. is_supported db' (hidiocgdevinfo e h fd)" by blast+
    have r: "agree_result (run_files db e cf paths st)
        (run_files db' e (cf\<lparr>force := False\<rparr>) paths st)"
      using f nd s agree_refl by (rule agree_run_files_supported)
    then show "fst (run_files db e cf paths st) =
        fst (run_files db' e (cf\<lparr>force := False\<rparr>) paths st) \<and>
      trace (snd (run_files db e cf paths st)) =
        trace (snd (run_files db' e (cf\<lparr>force := False\<rparr>) paths st)) \<and>
      brightness (snd (run_files db e cf paths st)) =
        brightness (snd (run_files db' e (cf\<lparr>force := False\<rparr>) paths st)) \<and>
      first_device (snd (run_files db e cf paths st)) =
        first_device (snd (run_files db' e (cf\<lparr>force := False\<rparr>) paths st))"
      by (simp add: agree_result_def agree_def)
  qed
  from A B C D show ?thesis by (intro conjI)
qed

theorem unsupported_needs_force_witness:
  "fst (main (display unknown_device 0x800001 160) [] [''/dev/hiddev0'', ''/dev/hiddev1'']) = 2 \<and>
   last (trace (snd (main (display unknown_device 0x800001 160) []
      [''/dev/hiddev0'', ''/dev/hiddev1'']))) = GDEVINFO 3 unknown_device \<and>
   \<not> is_supported init_device_database unknown_device \<and>
   opened (trace (snd (run_files init_device_database (display unknown_device 0x800001 160)
      (conf0\<lparr>force := True\<rparr>) [''/dev/hiddev0'', ''/dev/hiddev1''] state0))) =
     [''/dev/hiddev0'', ''/dev/hiddev1''] \<and>
   INITREPORT 3 0 \<in> set (trace (snd (run_files init_device_database
      (display unknown_device 0x800001 160) (conf0\<lparr>force := True\<rparr>)
      [''/dev/hiddev0'', ''/dev/hiddev1''] state0)))"
proof -
  let ?e = "display unknown_device 0x800001 160"
  let ?p = "[''/dev/hiddev0'', ''/dev/hiddev1'']"
  let ?cf = "conf0\<lparr>force := True\<rparr>"
  have p: "parse_command_line init_device_database [] ?p = Inr (conf0, 0, ?p)"
    by code_simp
  have c: "mode conf0 \<noteq> DETECT" "\<not> force conf0"
    by (simp_all add: conf0_def)
  have ev: "GDEVINFO 3 unknown_device \<in> set (trace (snd (main ?e [] ?p)))"
    by code_simp
  have ns: "\<not> is_supported init_device_database unknown_device"
    by code_simp
  have cf: "force ?cf" "mode ?cf \<noteq> DETECT"
    by (simp_all add: conf0_def)
  have su: "is_supported only_unknown unknown_device"
    by code_simp
  have all: "\<forall>h fd. is_supported only_unknown (hidiocgdevinfo ?e h fd)"
    using su by (simp add: display_def)
  have q1: "opened (trace (snd (run_files only_unknown ?e (?cf\<lparr>force := False\<rparr>) ?p state0))) = ?p"
    by code_simp
  have q2: "INITREPORT 3 0 \<in>
      set (trace (snd (run_files only_unknown ?e (?cf\<lparr>force := False\<rparr>) ?p state0)))"
    by code_simp
  note t = unsupported_needs_force [of "[]" ?p ?e ?cf init_device_database ?p state0 only_unknown]
  have a: "fst (main ?e [] ?p) = 2 \<and> last (trace (snd (main ?e [] ?p))) = GDEVINFO 3 unknown_device"
    using t [THEN conjunct1] p c ev ns by blast
  have "trace (snd (run_files init_device_database ?e ?cf ?p state0)) =
        trace (snd (run_files only_unknown ?e (?cf\<lparr>force := False\<rparr>) ?p state0))"
    using t [THEN conjunct2, THEN conjunct2, THEN conjunct2] cf all by blast
  then have b: "opened (trace (snd (run_files init_device_database ?e ?cf ?p state0))) = ?p \<and>
      INITREPORT 3 0 \<in> set (trace (snd (run_files init_device_database ?e ?cf ?p state0)))"
    using q1 q2 by simp
  show ?thesis using a b ns by blast
qed

subsection \<open>The brightness sent to the device\<close>






















lemma cinema20_supported: "is_supported init_device_database cinema20"
  by code_simp

lemmas run_defs = loop_body_def open_device_def read_info_def is_usb_monitor_def
  is_usb_monitor_loop.simps monitor_page_def transaction_def set_usage_report_def
  get_usage_report_def close_device_def print_brightness_def log_def print_def display_def
  conf0_def state0_def start_def int_min_def int_max_def Let_def



lemma atoi_max: "atoi ''+2147483647'' = 2147483647"
  by (simp add: atoi_def strtol_def first_char_def isspace_def isdigit_def)



lemma parse_plus_max:
  "parse_command_line init_device_database [] [''/dev/hiddev0'', ''+2147483647''] =
     Inr (conf0\<lparr>mode := SETREL, amount := 2147483647, open_mode := O_RDWR\<rparr>, 0,
          [''/dev/hiddev0''])"
  by (simp add: parse_command_line_def conf0_def state0_def number_def first_char_def atoi_max)



text \<open>
  C1, at the arguments \<^verbatim>\<open>/dev/hiddev0 +2147483647\<close> with a display at brightness
  255: the sum \<^verbatim>\<open>usage_ref.value + amount\<close> leaves the range of \<^verbatim>\<open>int\<close> and wraps to
  a negative value, the value sent is 0 and the value read back and printed is 0,
  where the clamp of 255 + 2147483647 to the range 0 to 255 is 255.
\<close>

theorem setrel_overflow:
  "sent_values (trace (snd (main (display cinema20 0x800001 255) []
      [''/dev/hiddev0'', ''+2147483647'']))) = [0] \<and>
   out (snd (main (display cinema20 0x800001 255) [] [''/dev/hiddev0'', ''+2147483647''])) =
     [Notice, DriverVersion 0x10004, BrightnessPrefix ''/dev/hiddev0'', BrightnessValue 0] \<and>
   max 0 (min 255 (sint (255 :: 32 word) + sint (atoi ''+2147483647''))) = 255"
proof -
  let ?c = "conf0\<lparr>mode := SETREL, amount := 2147483647, open_mode := O_RDWR\<rparr>"
  let ?R = "run_files init_device_database (display cinema20 0x800001 255) ?c [''/dev/hiddev0'']
      (start ?c 0)"
  have a: "sent_values (trace (snd ?R)) = [0]"
    by (simp add: run_defs cinema20_supported) (simp add: cinema20_def)
  have b: "out (snd ?R) =
     [Notice, DriverVersion 0x10004, BrightnessPrefix ''/dev/hiddev0'', BrightnessValue 0]"
    by (simp add: run_defs cinema20_supported) (simp add: cinema20_def)
  have d: "max 0 (min 255 (sint (255 :: 32 word) + sint (2147483647 :: 32 word))) = 255"
    by simp
  show ?thesis
    unfolding main_run [OF parse_plus_max] atoi_max using a b d by simp
qed

text \<open>
  C7, at the arguments \<^verbatim>\<open>--detect /dev/hiddev0 /dev/hiddev1\<close> with two displays that
  open: \<^verbatim>\<open>first_device\<close> is reset at the end of the loop body only, which the
  \<^verbatim>\<open>continue\<close> of the detection skips, and the version line is printed for both
  devices.
\<close>

theorem version_printed_twice:
  "out (snd (main (display cinema20 0x800001 160) ''d'' [''/dev/hiddev0'', ''/dev/hiddev1''])) =
     [Notice, DriverVersion 0x10004, DetectLine ''/dev/hiddev0'' True cinema20,
      DriverVersion 0x10004, DetectLine ''/dev/hiddev1'' True cinema20]"
  by code_simp

end
